theory Spec2Isabelle
  imports Main "HOL-Library.Word" "HOL-Library.Sublist"
begin

section \<open>JavaScript values used by \<open>web/fal_key_manager.js\<close>\<close>

text \<open>
  A JavaScript string is a sequence of 16-bit code units. String literals of the source
  are written \<open>js ''...''\<close>.
\<close>

type_synonym jsstring = "16 word list"

definition js :: "string \<Rightarrow> jsstring" where
  "js s = map of_char s"

text \<open>
  The values that can come out of \<open>JSON.parse\<close>. A number keeps the literal it was
  read from: the double it denotes, its zero test and its printed form belong to the
  host (see \<open>host\<close> below). An object is the list of its own properties in the order
  \<open>Object.keys\<close> enumerates them.
\<close>

datatype json =
    JNull
  | JBool bool
  | JNum jsstring
  | JStr jsstring
  | JArr "json list"
  | JObj "(jsstring \<times> json) list"

datatype js_error = SyntaxError | TypeError | HostError jsstring

datatype 'a completion = Normal 'a | Throw js_error

subsection \<open>Own-property order of ordinary objects\<close>

text \<open>
  \<open>OrdinaryOwnPropertyKeys\<close>: array indices (canonical decimal strings below
  \<open>2^32 - 1\<close>) in ascending numeric order, then all other string keys in creation order.
\<close>

definition is_digit :: "16 word \<Rightarrow> bool" where
  "is_digit c = (0x30 \<le> c \<and> c \<le> 0x39)"

definition dec_value :: "jsstring \<Rightarrow> nat" where
  "dec_value s = foldl (\<lambda>a c. 10 * a + (unat c - 48)) 0 s"

definition is_array_index :: "jsstring \<Rightarrow> bool" where
  "is_array_index s =
     (s \<noteq> [] \<and> list_all is_digit s \<and> (if length s = 1 then True else hd s \<noteq> 0x30)
      \<and> dec_value s < 4294967295)"

definition key_before :: "jsstring \<Rightarrow> jsstring \<Rightarrow> bool" where
  "key_before a b =
     (is_array_index a \<and> (if is_array_index b then dec_value a < dec_value b else True))"

text \<open>\<open>CreateDataProperty\<close> on an ordinary object: an existing own property keeps its
  place and takes the new value, a new one is put where the enumeration order has it.\<close>

fun obj_define :: "jsstring \<Rightarrow> json \<Rightarrow> (jsstring \<times> json) list \<Rightarrow> (jsstring \<times> json) list" where
  "obj_define k v [] = [(k, v)]"
| "obj_define k v (p # ps) =
     (if k = fst p then (k, v) # ps
      else if key_before k (fst p) then (k, v) # p # ps
      else p # obj_define k v ps)"

text \<open>The representation invariant of an own-property list: no key twice, and no key
  placed after one it has to precede.\<close>

fun own_properties :: "(jsstring \<times> json) list \<Rightarrow> bool" where
  "own_properties [] = True"
| "own_properties (p # ps) =
     (list_all (\<lambda>q. fst q \<noteq> fst p \<and> \<not> key_before (fst q) (fst p)) ps \<and> own_properties ps)"

subsection \<open>\<open>JSON.stringify\<close>\<close>

definition is_lead :: "16 word \<Rightarrow> bool" where
  "is_lead c = (0xD800 \<le> c \<and> c \<le> 0xDBFF)"

definition is_trail :: "16 word \<Rightarrow> bool" where
  "is_trail c = (0xDC00 \<le> c \<and> c \<le> 0xDFFF)"

definition hex_digit :: "nat \<Rightarrow> 16 word" where
  "hex_digit n = (if n < 10 then 0x30 + of_nat n else 0x61 + of_nat (n - 10))"

text \<open>\<open>\uXXXX\<close> with the four lowercase hexadecimal digits of the code unit.\<close>

definition UnicodeEscape :: "16 word \<Rightarrow> jsstring" where
  "UnicodeEscape c =
     [0x5C, 0x75, hex_digit (unat c div 4096), hex_digit (unat c div 256 mod 16),
      hex_digit (unat c div 16 mod 16), hex_digit (unat c mod 16)]"

text \<open>One code unit that is not part of a surrogate pair, as \<open>QuoteJSONString\<close> writes it.\<close>

definition quote_unit :: "16 word \<Rightarrow> jsstring" where
  "quote_unit c =
     (if c = 0x08 then [0x5C, 0x62]
      else if c = 0x09 then [0x5C, 0x74]
      else if c = 0x0A then [0x5C, 0x6E]
      else if c = 0x0C then [0x5C, 0x66]
      else if c = 0x0D then [0x5C, 0x72]
      else if c = 0x22 then [0x5C, 0x22]
      else if c = 0x5C then [0x5C, 0x5C]
      else if c < 0x20 \<or> is_lead c \<or> is_trail c then UnicodeEscape c
      else [c])"

fun quote_body :: "jsstring \<Rightarrow> jsstring" where
  "quote_body [] = []"
| "quote_body [c] = quote_unit c"
| "quote_body (c # d # cs) =
     (if is_lead c \<and> is_trail d then c # d # quote_body cs
      else quote_unit c @ quote_body (d # cs))"

definition QuoteJSONString :: "jsstring \<Rightarrow> jsstring" where
  "QuoteJSONString s = 0x22 # quote_body s @ [0x22]"

fun join_comma :: "jsstring list \<Rightarrow> jsstring" where
  "join_comma [] = []"
| "join_comma [x] = x"
| "join_comma (x # y # ys) = x @ 0x2C # join_comma (y # ys)"

text \<open>\<open>JSON.stringify(value)\<close> with no replacer and no indentation. The first argument
  is the host's \<open>Number::toString\<close>, applied to the literal a number was read from.\<close>

fun JSON_stringify :: "(jsstring \<Rightarrow> jsstring) \<Rightarrow> json \<Rightarrow> jsstring" where
  "JSON_stringify nts JNull = js ''null''"
| "JSON_stringify nts (JBool b) = (if b then js ''true'' else js ''false'')"
| "JSON_stringify nts (JNum n) = nts n"
| "JSON_stringify nts (JStr s) = QuoteJSONString s"
| "JSON_stringify nts (JArr xs) = 0x5B # join_comma (map (JSON_stringify nts) xs) @ [0x5D]"
| "JSON_stringify nts (JObj kvs) =
     0x7B # join_comma (map (\<lambda>p. QuoteJSONString (fst p) @ 0x3A # JSON_stringify nts (snd p)) kvs)
       @ [0x7D]"

subsection \<open>\<open>JSON.parse\<close>\<close>

datatype token =
    TLBrace | TRBrace | TLBrack | TRBrack | TColon | TComma
  | TStr jsstring | TNum jsstring | TTrue | TFalse | TNull

definition hex_val :: "16 word \<Rightarrow> nat option" where
  "hex_val c =
     (if 0x30 \<le> c \<and> c \<le> 0x39 then Some (unat c - 48)
      else if 0x61 \<le> c \<and> c \<le> 0x66 then Some (unat c - 87)
      else if 0x41 \<le> c \<and> c \<le> 0x46 then Some (unat c - 55)
      else None)"

definition hex4 :: "16 word \<Rightarrow> 16 word \<Rightarrow> 16 word \<Rightarrow> 16 word \<Rightarrow> 16 word option" where
  "hex4 a b c d =
     (case (hex_val a, hex_val b, hex_val c, hex_val d) of
        (Some w, Some x, Some y, Some z) \<Rightarrow> Some (of_nat (4096 * w + 256 * x + 16 * y + z))
      | _ \<Rightarrow> None)"

definition unescape :: "16 word \<Rightarrow> 16 word option" where
  "unescape e =
     (if e = 0x22 then Some 0x22
      else if e = 0x5C then Some 0x5C
      else if e = 0x2F then Some 0x2F
      else if e = 0x62 then Some 0x08
      else if e = 0x66 then Some 0x0C
      else if e = 0x6E then Some 0x0A
      else if e = 0x72 then Some 0x0D
      else if e = 0x74 then Some 0x09
      else None)"

definition cons_fst :: "'a \<Rightarrow> ('a list \<times> 'b) option \<Rightarrow> ('a list \<times> 'b) option" where
  "cons_fst u r = (case r of None \<Rightarrow> None | Some (s, t) \<Rightarrow> Some (u # s, t))"

text \<open>The characters of a string literal after its opening quote: the decoded string and
  the text after the closing quote.\<close>

fun lex_string :: "jsstring \<Rightarrow> (jsstring \<times> jsstring) option" where
  "lex_string [] = None"
| "lex_string (c # cs) =
     (if c = 0x22 then Some ([], cs)
      else if c = 0x5C then
        (case cs of
           [] \<Rightarrow> None
         | e # es \<Rightarrow>
             if e = 0x75 then
               (case es of
                  h1 # h2 # h3 # h4 # r \<Rightarrow>
                    (case hex4 h1 h2 h3 h4 of
                       None \<Rightarrow> None
                     | Some u \<Rightarrow> cons_fst u (lex_string r))
                | _ \<Rightarrow> None)
             else
               (case unescape e of
                  None \<Rightarrow> None
                | Some u \<Rightarrow> cons_fst u (lex_string es)))
      else if c < 0x20 then None
      else cons_fst c (lex_string cs))"

definition is_num_char :: "16 word \<Rightarrow> bool" where
  "is_num_char c = (is_digit c \<or> c = 0x2B \<or> c = 0x2D \<or> c = 0x2E \<or> c = 0x65 \<or> c = 0x45)"

definition digits1 :: "jsstring \<Rightarrow> bool" where
  "digits1 s = (s \<noteq> [] \<and> list_all is_digit s)"

definition valid_exponent :: "jsstring \<Rightarrow> bool" where
  "valid_exponent s =
     (case s of
        [] \<Rightarrow> True
      | c # r \<Rightarrow>
          (c = 0x65 \<or> c = 0x45) \<and>
          (case r of
             [] \<Rightarrow> False
           | d # r' \<Rightarrow> if d = 0x2B \<or> d = 0x2D then digits1 r' else digits1 r))"

definition valid_fraction :: "jsstring \<Rightarrow> bool" where
  "valid_fraction s =
     (case s of
        [] \<Rightarrow> True
      | c # r \<Rightarrow>
          if c = 0x2E then
            takeWhile is_digit r \<noteq> [] \<and> valid_exponent (dropWhile is_digit r)
          else valid_exponent s)"

text \<open>The JSON number grammar:
  \<^verbatim>\<open>-?(0|[1-9][0-9]*)(\.[0-9]+)?([eE][+-]?[0-9]+)?\<close>.\<close>

definition valid_number :: "jsstring \<Rightarrow> bool" where
  "valid_number s =
     (let u = (case s of [] \<Rightarrow> [] | c # r \<Rightarrow> if c = 0x2D then r else s);
          ip = takeWhile is_digit u
      in ip \<noteq> [] \<and> (if length ip = 1 then True else hd ip \<noteq> 0x30)
         \<and> valid_fraction (dropWhile is_digit u))"

definition is_json_ws :: "16 word \<Rightarrow> bool" where
  "is_json_ws c = (c = 0x20 \<or> c = 0x09 \<or> c = 0x0A \<or> c = 0x0D)"

definition cons_tok :: "token \<Rightarrow> token list option \<Rightarrow> token list option" where
  "cons_tok t r = map_option ((#) t) r"

lemma cons_fst_shorter:
  "cons_fst u r = Some (s, t) \<Longrightarrow> \<exists>s'. r = Some (s', t)"
  by (auto simp: cons_fst_def split: option.splits)

lemma lex_string_shorter: "lex_string cs = Some (s, r) \<Longrightarrow> length r < length cs"
proof (induction cs arbitrary: s r rule: lex_string.induct)
  case 1
  then show ?case by simp
next
  case (2 c cs)
  show ?case
  proof (cases "c = 0x22")
    case True
    with "2.prems" show ?thesis by simp
  next
    case quote: False
    show ?thesis
    proof (cases "c = 0x5C")
      case False
      with quote "2.prems" obtain s' where "lex_string cs = Some (s', r)"
        by (auto split: if_splits dest: cons_fst_shorter)
      with "2.IH"(3) [of s' r] quote False "2.prems" show ?thesis
        by (auto split: if_splits)
    next
      case bs: True
      show ?thesis
      proof (cases cs)
        case Nil
        with bs quote "2.prems" show ?thesis by simp
      next
        case (Cons e es)
        show ?thesis
        proof (cases "e = 0x75")
          case False
          with bs quote Cons "2.prems" obtain u s' where
            "unescape e = Some u" "lex_string es = Some (s', r)"
            by (auto split: option.splits dest: cons_fst_shorter)
          with "2.IH"(2) [of e es u s' r] bs quote Cons False show ?thesis
            by simp
        next
          case u: True
          with bs quote Cons "2.prems" obtain h1 h2 h3 h4 t v s' where
            es: "es = h1 # h2 # h3 # h4 # t" and "hex4 h1 h2 h3 h4 = Some v"
            and "lex_string t = Some (s', r)"
            by (auto split: option.splits list.splits dest: cons_fst_shorter)
          with "2.IH"(1) [of e es h1 "h2 # h3 # h4 # t" h2 "h3 # h4 # t" h3 "h4 # t" h4 t v s' r]
            bs quote Cons u show ?thesis
            by simp
        qed
      qed
    qed
  qed
qed

function tokens :: "jsstring \<Rightarrow> token list option" where
  "tokens [] = Some []"
| "tokens (c # cs) =
     (if is_json_ws c then tokens cs
      else if c = 0x7B then cons_tok TLBrace (tokens cs)
      else if c = 0x7D then cons_tok TRBrace (tokens cs)
      else if c = 0x5B then cons_tok TLBrack (tokens cs)
      else if c = 0x5D then cons_tok TRBrack (tokens cs)
      else if c = 0x3A then cons_tok TColon (tokens cs)
      else if c = 0x2C then cons_tok TComma (tokens cs)
      else if c = 0x22 then
        (case lex_string cs of
           None \<Rightarrow> None
         | Some (s, r) \<Rightarrow> cons_tok (TStr s) (tokens r))
      else if c = 0x2D \<or> is_digit c then
        (if valid_number (c # takeWhile is_num_char cs)
         then cons_tok (TNum (c # takeWhile is_num_char cs)) (tokens (dropWhile is_num_char cs))
         else None)
      else if take 4 (c # cs) = js ''true'' then cons_tok TTrue (tokens (drop 3 cs))
      else if take 5 (c # cs) = js ''false'' then cons_tok TFalse (tokens (drop 4 cs))
      else if take 4 (c # cs) = js ''null'' then cons_tok TNull (tokens (drop 3 cs))
      else None)"
  by pat_completeness auto
termination
proof (relation "measure length", goal_cases)
  case (9 c cs x2 x y)
  then have "lex_string cs = Some (x, y)" by simp
  from lex_string_shorter [OF this] show ?case by simp
next
  case (10 c cs)
  have "length (dropWhile is_num_char cs) \<le> length cs" by (rule length_dropWhile_le)
  then show ?case by simp
qed simp_all

text \<open>The parser proper is a stack machine over the tokens: one frame per array or object
  that is open, and a frame for the key of the member being read.\<close>

datatype frame = FArr "json list" | FObj "(jsstring \<times> json) list" | FKey jsstring

datatype mode = MValue | MValueOrClose | MKeyOrClose | MKey | MColon | MAfter json

fun value_start :: "token \<Rightarrow> frame list \<Rightarrow> (mode \<times> frame list) option" where
  "value_start TLBrack st = Some (MValueOrClose, FArr [] # st)"
| "value_start TLBrace st = Some (MKeyOrClose, FObj [] # st)"
| "value_start (TStr s) st = Some (MAfter (JStr s), st)"
| "value_start (TNum n) st = Some (MAfter (JNum n), st)"
| "value_start TTrue st = Some (MAfter (JBool True), st)"
| "value_start TFalse st = Some (MAfter (JBool False), st)"
| "value_start TNull st = Some (MAfter JNull, st)"
| "value_start TRBrace st = None"
| "value_start TRBrack st = None"
| "value_start TColon st = None"
| "value_start TComma st = None"

fun pstep :: "mode \<Rightarrow> frame list \<Rightarrow> token \<Rightarrow> (mode \<times> frame list) option" where
  "pstep MValue st t = value_start t st"
| "pstep MValueOrClose st t =
     (if t = TRBrack then
        (case st of FArr xs # st' \<Rightarrow> Some (MAfter (JArr xs), st') | _ \<Rightarrow> None)
      else value_start t st)"
| "pstep MKeyOrClose st t =
     (case t of
        TRBrace \<Rightarrow> (case st of FObj kvs # st' \<Rightarrow> Some (MAfter (JObj kvs), st') | _ \<Rightarrow> None)
      | TStr k \<Rightarrow> Some (MColon, FKey k # st)
      | _ \<Rightarrow> None)"
| "pstep MKey st t = (case t of TStr k \<Rightarrow> Some (MColon, FKey k # st) | _ \<Rightarrow> None)"
| "pstep MColon st t = (case t of TColon \<Rightarrow> Some (MValue, st) | _ \<Rightarrow> None)"
| "pstep (MAfter v) st t =
     (case st of
        FArr xs # st' \<Rightarrow>
          (case t of
             TComma \<Rightarrow> Some (MValue, FArr (xs @ [v]) # st')
           | TRBrack \<Rightarrow> Some (MAfter (JArr (xs @ [v])), st')
           | _ \<Rightarrow> None)
      | FKey k # FObj kvs # st' \<Rightarrow>
          (case t of
             TComma \<Rightarrow> Some (MKey, FObj (obj_define k v kvs) # st')
           | TRBrace \<Rightarrow> Some (MAfter (JObj (obj_define k v kvs)), st')
           | _ \<Rightarrow> None)
      | _ \<Rightarrow> None)"

fun parse_run :: "mode \<Rightarrow> frame list \<Rightarrow> token list \<Rightarrow> json option" where
  "parse_run m st [] = (case m of MAfter v \<Rightarrow> (if st = [] then Some v else None) | _ \<Rightarrow> None)"
| "parse_run m st (t # ts) =
     (case pstep m st t of None \<Rightarrow> None | Some (m', st') \<Rightarrow> parse_run m' st' ts)"

text \<open>\<open>JSON.parse(text)\<close> with no reviver: the value, or a \<open>SyntaxError\<close>.\<close>

definition JSON_parse :: "jsstring \<Rightarrow> json completion" where
  "JSON_parse text =
     (case tokens text of
        None \<Rightarrow> Throw SyntaxError
      | Some ts \<Rightarrow> (case parse_run MValue [] ts of None \<Rightarrow> Throw SyntaxError | Some v \<Rightarrow> Normal v))"

subsection \<open>Credential sets\<close>

text \<open>A credential set is an object whose values are strings: the entries
  \<open>(name, secret)\<close> in the order of \<open>Object.keys\<close>.\<close>

definition CredentialSet :: "(jsstring \<times> jsstring) list \<Rightarrow> json" where
  "CredentialSet es = JObj (map (\<lambda>e. (fst e, JStr (snd e))) es)"

subsection \<open>Property access on the loaded value\<close>

text \<open>
  What \<open>keys[name]\<close> can evaluate to: nothing, a JSON value, or something inherited
  from \<open>Object.prototype\<close> (one of its functions, or the prototype object itself
  through the \<open>__proto__\<close> accessor). \<open>Object.prototype\<close> is the engine's, with the
  properties of the language standard and no others.
\<close>

datatype jsval = Undefined | Val json | Function jsstring | ObjectPrototype

definition Object_prototype_functions :: "jsstring list" where
  "Object_prototype_functions =
     map js [''constructor'', ''hasOwnProperty'', ''isPrototypeOf'', ''propertyIsEnumerable'',
             ''toLocaleString'', ''toString'', ''valueOf'', ''__defineGetter__'',
             ''__defineSetter__'', ''__lookupGetter__'', ''__lookupSetter__'']"

record request =
  request_method :: jsstring
  request_headers :: "(jsstring \<times> jsstring) list"
  request_body :: jsstring

datatype fetch_outcome = Fulfilled nat | Rejected js_error

text \<open>
  The host, as far as the program depends on it: \<open>api.fetchApi\<close> (how the request
  settles: a response with its status, or an error thrown or rejected), the
  floating-point side of numbers, and the property operations on values that are not
  plain objects (arrays and primitives, whose prototypes are the engine's).
\<close>

record host =
  fetchApi :: "jsstring \<Rightarrow> request \<Rightarrow> fetch_outcome"
  number_is_zero :: "jsstring \<Rightarrow> bool"
  number_to_string :: "jsstring \<Rightarrow> jsstring"
  array_to_string :: "json list \<Rightarrow> jsstring"
  exotic_get :: "json \<Rightarrow> jsstring \<Rightarrow> jsval"
  exotic_delete :: "json \<Rightarrow> jsstring \<Rightarrow> json completion"
  exotic_set :: "json \<Rightarrow> jsstring \<Rightarrow> json \<Rightarrow> json completion"

fun truthy :: "host \<Rightarrow> json \<Rightarrow> bool" where
  "truthy h JNull = False"
| "truthy h (JBool b) = b"
| "truthy h (JNum n) = (\<not> number_is_zero h n)"
| "truthy h (JStr s) = (s \<noteq> [])"
| "truthy h (JArr xs) = True"
| "truthy h (JObj kvs) = True"

fun ToBoolean :: "host \<Rightarrow> jsval \<Rightarrow> bool" where
  "ToBoolean h Undefined = False"
| "ToBoolean h (Val v) = truthy h v"
| "ToBoolean h (Function f) = True"
| "ToBoolean h ObjectPrototype = True"

text \<open>\<open>obj[k]\<close>: an own property first, then the prototype chain.\<close>

definition js_get :: "host \<Rightarrow> json \<Rightarrow> jsstring \<Rightarrow> jsval" where
  "js_get h obj k =
     (case obj of
        JObj kvs \<Rightarrow>
          (case map_of kvs k of
             Some v \<Rightarrow> Val v
           | None \<Rightarrow>
               if k \<in> set Object_prototype_functions then Function k
               else if k = js ''__proto__'' then ObjectPrototype
               else Undefined)
      | _ \<Rightarrow> exotic_get h obj k)"

text \<open>\<open>delete obj[k]\<close> (the module is strict code, so a failed delete throws).\<close>

definition js_delete :: "host \<Rightarrow> json \<Rightarrow> jsstring \<Rightarrow> json completion" where
  "js_delete h obj k =
     (case obj of
        JObj kvs \<Rightarrow> Normal (JObj (filter (\<lambda>p. fst p \<noteq> k) kvs))
      | _ \<Rightarrow> exotic_delete h obj k)"

text \<open>\<open>obj[k] = v\<close>: on a plain object an own property is written or created, except
  that \<open>__proto__\<close>, when it is not an own property, reaches the setter inherited from
  \<open>Object.prototype\<close>, which ignores a value that is not an object.\<close>

definition js_set :: "host \<Rightarrow> json \<Rightarrow> jsstring \<Rightarrow> jsstring \<Rightarrow> json completion" where
  "js_set h obj k v =
     (case obj of
        JObj kvs \<Rightarrow>
          Normal (JObj (if k = js ''__proto__'' \<and> map_of kvs k = None then kvs
                        else obj_define k (JStr v) kvs))
      | _ \<Rightarrow> exotic_set h obj k (JStr v))"

fun decimal :: "nat \<Rightarrow> jsstring" where
  "decimal n = (if n < 10 then [0x30 + of_nat n] else decimal (n div 10) @ [0x30 + of_nat (n mod 10)])"

text \<open>\<open>Object.keys(value)\<close>: the own enumerable string keys.\<close>

fun Object_keys :: "json \<Rightarrow> jsstring list" where
  "Object_keys (JObj kvs) = map fst kvs"
| "Object_keys (JArr xs) = map decimal [0..<length xs]"
| "Object_keys (JStr s) = map decimal [0..<length s]"
| "Object_keys v = []"

section \<open>localStorage helpers\<close>

text \<open>
  Everything the program does to the outside is kept in the state: the origin's
  \<open>localStorage\<close> (\<open>getItem\<close> of a missing key is \<open>null\<close>, here \<open>None\<close>) and
  the record of network calls and console output, oldest first. Access to the storage
  is taken as granted and the storage as unbounded: \<open>getItem\<close> and \<open>setItem\<close> do not
  throw.
\<close>

datatype event = FetchApi jsstring request | ConsoleError jsstring js_error

record state =
  localStorage :: "jsstring \<Rightarrow> jsstring option"
  events :: "event list"

definition KEYS_STORAGE :: jsstring where
  "KEYS_STORAGE = js ''fal_api_keys''"

definition ACTIVE_STORAGE :: jsstring where
  "ACTIVE_STORAGE = js ''fal_active_key_name''"

definition getItem :: "state \<Rightarrow> jsstring \<Rightarrow> jsstring option" where
  "getItem s k = localStorage s k"

definition setItem :: "jsstring \<Rightarrow> jsstring \<Rightarrow> state \<Rightarrow> state" where
  "setItem k v s = s\<lparr>localStorage := (localStorage s)(k \<mapsto> v)\<rparr>"

text \<open>
  \<^verbatim>\<open>try { return JSON.parse(localStorage.getItem(KEYS_STORAGE)) || {}; } catch { return {}; }\<close>
  \<open>JSON.parse\<close> converts its argument to a string first, so a missing item is parsed
  as the text \<open>null\<close>.
\<close>

definition loadKeys :: "host \<Rightarrow> state \<Rightarrow> json" where
  "loadKeys h s =
     (case JSON_parse (case getItem s KEYS_STORAGE of None \<Rightarrow> js ''null'' | Some t \<Rightarrow> t) of
        Normal v \<Rightarrow> if truthy h v then v else JObj []
      | Throw e \<Rightarrow> JObj [])"

definition saveKeys :: "host \<Rightarrow> json \<Rightarrow> state \<Rightarrow> state" where
  "saveKeys h keys s = setItem KEYS_STORAGE (JSON_stringify (number_to_string h) keys) s"

text \<open>\<^verbatim>\<open>return localStorage.getItem(ACTIVE_STORAGE) || "";\<close>\<close>

definition getActiveKeyName :: "state \<Rightarrow> jsstring" where
  "getActiveKeyName s =
     (case getItem s ACTIVE_STORAGE of
        None \<Rightarrow> []
      | Some a \<Rightarrow> if a \<noteq> [] then a else [])"

definition setActiveKeyName :: "jsstring \<Rightarrow> state \<Rightarrow> state" where
  "setActiveKeyName name s = setItem ACTIVE_STORAGE name s"

section \<open>Send key to server\<close>

text \<open>\<open>JSON.stringify({ key, name })\<close>: a member whose value is a function is left out;
  \<open>Object.prototype\<close> has no enumerable property of its own.\<close>

definition stringify_key_name :: "host \<Rightarrow> jsval \<Rightarrow> jsstring \<Rightarrow> jsstring" where
  "stringify_key_name h key name =
     0x7B # join_comma
       ((case key of
           Val v \<Rightarrow> [QuoteJSONString (js ''key'') @ 0x3A # JSON_stringify (number_to_string h) v]
         | ObjectPrototype \<Rightarrow> [QuoteJSONString (js ''key'') @ 0x3A # js ''{}'']
         | _ \<Rightarrow> [])
        @ [QuoteJSONString (js ''name'') @ 0x3A # QuoteJSONString name])
     @ [0x7D]"

text \<open>The second argument of \<open>api.fetchApi\<close>.\<close>

definition set_key_request :: "host \<Rightarrow> jsval \<Rightarrow> jsstring \<Rightarrow> request" where
  "set_key_request h key name =
     \<lparr>request_method = js ''POST'',
      request_headers = [(js ''Content-Type'', js ''application/json'')],
      request_body = stringify_key_name h key name\<rparr>"

text \<open>
  The async function, run to the point where its promise settles: \<open>Normal ()\<close> is a
  promise that resolves, \<open>Throw e\<close> one that rejects. The \<open>await\<close> of the request sits
  inside \<open>try\<close>, so an error thrown by \<open>fetchApi\<close> and a rejection end in the same
  \<open>catch\<close>. The request settles: one that stays pending for ever is not among the
  outcomes.
\<close>

definition pushActiveKeyToServer :: "host \<Rightarrow> state \<Rightarrow> unit completion \<times> state" where
  "pushActiveKeyToServer h s =
     (let name = getActiveKeyName s;
          keys = loadKeys h s;
          key = js_get h keys name
      in if \<not> ToBoolean h key then (Normal (), s)
         else
           (let req = set_key_request h key name;
                s1 = s\<lparr>events := events s @ [FetchApi (js ''/fal-api/set-key'') req]\<rparr>
            in case fetchApi h (js ''/fal-api/set-key'') req of
                 Fulfilled status \<Rightarrow> (Normal (), s1)
               | Rejected e \<Rightarrow>
                   (Normal (),
                    s1\<lparr>events := events s1 @
                       [ConsoleError (js ''[FAL Key Manager] Failed to push key to server:'') e]\<rparr>)))"

fun is_network_call :: "event \<Rightarrow> bool" where
  "is_network_call (FetchApi url req) = True"
| "is_network_call (ConsoleError msg e) = False"

definition network_calls :: "state \<Rightarrow> nat" where
  "network_calls s = length (filter is_network_call (events s))"

section \<open>Queue-prompt hook\<close>

text \<open>
  \<open>app.queuePrompt\<close> is a function of its arguments and the state, with the completion
  of the promise it returns. \<open>installQueueHook\<close> takes the flag \<open>hooked\<close> and the
  current \<open>app.queuePrompt\<close> and gives both back.
\<close>

type_synonym ('a, 'r) queue_fn = "'a list \<Rightarrow> state \<Rightarrow> 'r completion \<times> state"

definition installQueueHook ::
  "host \<Rightarrow> bool \<times> ('a, 'r) queue_fn \<Rightarrow> bool \<times> ('a, 'r) queue_fn" where
  "installQueueHook h app =
     (case app of
        (hooked, origQueue) \<Rightarrow>
          if hooked then (hooked, origQueue)
          else (True,
                \<lambda>args s.
                  case pushActiveKeyToServer h s of
                    (Throw e, s1) \<Rightarrow> (Throw e, s1)
                  | (Normal u, s1) \<Rightarrow> origQueue args s1))"

section \<open>Manage-keys dialog\<close>

definition is_white_space :: "16 word \<Rightarrow> bool" where
  "is_white_space c =
     (c \<in> {0x09, 0x0A, 0x0B, 0x0C, 0x0D, 0x20, 0xA0, 0x1680, 0x2028, 0x2029, 0x202F, 0x205F,
            0x3000, 0xFEFF}
      \<or> (0x2000 \<le> c \<and> c \<le> 0x200A))"

definition trim :: "jsstring \<Rightarrow> jsstring" where
  "trim s = rev (dropWhile is_white_space (rev (dropWhile is_white_space s)))"

text \<open>\<open>keys[n].slice(0, 8) + "..."\<close>: strings and arrays have \<open>slice\<close>, nothing else that
  can be stored has.\<close>

definition preview :: "host \<Rightarrow> jsval \<Rightarrow> jsstring completion" where
  "preview h v =
     (case v of
        Val (JStr k) \<Rightarrow> Normal (take 8 k @ js ''...'')
      | Val (JArr xs) \<Rightarrow> Normal (array_to_string h (take 8 xs) @ js ''...'')
      | _ \<Rightarrow> Throw TypeError)"

definition info_textContent :: "jsstring \<Rightarrow> jsstring \<Rightarrow> jsstring" where
  "info_textContent n p = n @ js ''  ('' @ p @ js '')''"

text \<open>The loop over \<open>names\<close> in \<open>render\<close>: the text of the \<open>info\<close> span of each row.\<close>

fun render_rows :: "host \<Rightarrow> json \<Rightarrow> jsstring list \<Rightarrow> jsstring list completion" where
  "render_rows h keys [] = Normal []"
| "render_rows h keys (n # ns) =
     (case preview h (js_get h keys n) of
        Throw e \<Rightarrow> Throw e
      | Normal p \<Rightarrow>
          (case render_rows h keys ns of
             Throw e \<Rightarrow> Throw e
           | Normal rows \<Rightarrow> Normal (info_textContent n p # rows)))"

text \<open>What the dialog shows between its title and the add form: the rows, the line
  \<open>No keys saved yet.\<close>, or nothing when \<open>render\<close> threw inside the loop.\<close>

datatype listing = Rows "jsstring list" | NoKeysSaved | Unfinished

definition render :: "host \<Rightarrow> state \<Rightarrow> listing completion" where
  "render h s =
     (let keys = loadKeys h s;
          names = Object_keys keys
      in if names \<noteq> [] then
           (case render_rows h keys names of
              Throw e \<Rightarrow> Throw e
            | Normal rows \<Rightarrow> Normal (Rows rows))
         else Normal NoKeysSaved)"

section \<open>Refresh combo widget on the node\<close>

record widget =
  name :: jsstring
  wvalue :: jsstring
  options_values :: "jsstring list"

record node =
  widgets :: "widget list option"
  dirty_canvas :: bool

fun update_first :: "('a \<Rightarrow> bool) \<Rightarrow> ('a \<Rightarrow> 'a) \<Rightarrow> 'a list \<Rightarrow> 'a list" where
  "update_first P f [] = []"
| "update_first P f (x # xs) = (if P x then f x # xs else x # update_first P f xs)"

text \<open>\<^verbatim>\<open>node.widgets?.find((w) => w.name === "key_selector")\<close>\<close>

definition find_combo :: "node \<Rightarrow> widget option" where
  "find_combo n =
     (case widgets n of
        None \<Rightarrow> None
      | Some ws \<Rightarrow> find (\<lambda>w. name w = js ''key_selector'') ws)"

text \<open>The widget found is changed in place. \<open>options\<close> is never empty, so
  \<open>options[0]\<close> is its head.\<close>

definition refreshNodeWidgets :: "host \<Rightarrow> state \<Rightarrow> node option \<Rightarrow> node option" where
  "refreshNodeWidgets h s nd =
     (case nd of
        None \<Rightarrow> None
      | Some n \<Rightarrow>
          (let keys = loadKeys h s;
               names = Object_keys keys;
               options = (if names \<noteq> [] then names else [js ''(no keys)'']);
               active = getActiveKeyName s;
               combo = (\<lambda>w. w\<lparr>options_values := options,
                                 wvalue := (if active \<in> set names then active else hd options)\<rparr>)
           in Some (n\<lparr>widgets :=
                         map_option (update_first (\<lambda>w. name w = js ''key_selector'') combo)
                           (widgets n),
                       dirty_canvas := True\<rparr>)))"

section \<open>The dialog's handlers\<close>

record dialog =
  listing :: listing
  bound_node :: "node option"

text \<open>\<open>del.onclick\<close> of the row of entry \<open>n\<close>. An exception leaves the handler where it
  is thrown; what was written before stays written.\<close>

definition del_onclick ::
  "host \<Rightarrow> jsstring \<Rightarrow> state \<times> dialog \<Rightarrow> unit completion \<times> state \<times> dialog" where
  "del_onclick h n sd =
     (case sd of
        (s, d) \<Rightarrow>
          (case js_delete h (loadKeys h s) n of
             Throw e \<Rightarrow> (Throw e, s, d)
           | Normal updated \<Rightarrow>
               (let s1 = saveKeys h updated s;
                    s2 = (if getActiveKeyName s1 = n then setActiveKeyName [] s1 else s1)
                in case render h s2 of
                     Throw e \<Rightarrow> (Throw e, s2, d\<lparr>listing := Unfinished\<rparr>)
                   | Normal l \<Rightarrow>
                       (Normal (), s2,
                        \<lparr>listing = l, bound_node = refreshNodeWidgets h s2 (bound_node d)\<rparr>))))"

text \<open>\<open>addBtn.onclick\<close> with the contents of the two inputs.\<close>

definition addBtn_onclick ::
  "host \<Rightarrow> jsstring \<Rightarrow> jsstring \<Rightarrow> state \<times> dialog \<Rightarrow> unit completion \<times> state \<times> dialog" where
  "addBtn_onclick h nameInput keyInput sd =
     (case sd of
        (s, d) \<Rightarrow>
          (let n = trim nameInput;
               k = trim keyInput
           in if n = [] \<or> k = [] then (Normal (), s, d)
              else
                (case js_set h (loadKeys h s) n k of
                   Throw e \<Rightarrow> (Throw e, s, d)
                 | Normal updated \<Rightarrow>
                     (let s1 = saveKeys h updated s
                      in case render h s1 of
                           Throw e \<Rightarrow> (Throw e, s1, d\<lparr>listing := Unfinished\<rparr>)
                         | Normal l \<Rightarrow>
                             (Normal (), s1,
                              \<lparr>listing = l,
                               bound_node = refreshNodeWidgets h s1 (bound_node d)\<rparr>)))))"

section \<open>The selector's callback\<close>

text \<open>The callback given to \<open>node.addWidget("combo", "key_selector", ...)\<close> in
  \<open>nodeCreated\<close>; a combo hands it one of its options, a string.\<close>

definition key_selector_callback :: "jsstring \<Rightarrow> state \<Rightarrow> state" where
  "key_selector_callback v s =
     (if v \<noteq> [] \<and> v \<noteq> js ''(no keys)'' then setActiveKeyName v s else s)"

section \<open>The selector as the dialog is to leave it\<close>

text \<open>The widget notification contract in the words of the specification: for the entry
  names and the active name, the options are the names, or the single placeholder when
  there are none, and the value is the active name if it is one of the names, else the
  first option.\<close>

definition notified_selector :: "jsstring list \<Rightarrow> jsstring \<Rightarrow> widget \<Rightarrow> widget" where
  "notified_selector names active w =
     w\<lparr>options_values := (if names = [] then [js ''(no keys)''] else names),
       wvalue := (if active \<in> set names then active
                  else if names = [] then js ''(no keys)'' else hd names)\<rparr>"

section \<open>Example inputs\<close>

text \<open>A host whose requests succeed, and a state with the given items in
  \<open>localStorage\<close>, for running the program on concrete inputs.\<close>

definition example_host :: host where
  "example_host =
     \<lparr>fetchApi = (\<lambda>url req. Fulfilled 200),
      number_is_zero = (\<lambda>n. list_all (\<lambda>c. c = 0x30 \<or> c = 0x2D \<or> c = 0x2E) n),
      number_to_string = (\<lambda>n. n),
      array_to_string = (\<lambda>xs. []),
      exotic_get = (\<lambda>v k. Undefined),
      exotic_delete = (\<lambda>v k. Normal v),
      exotic_set = (\<lambda>v k x. Throw TypeError)\<rparr>"

definition stored :: "(jsstring \<times> jsstring) list \<Rightarrow> state" where
  "stored items = \<lparr>localStorage = map_of items, events = []\<rparr>"

text \<open>A host whose server answers every request with the status 500.\<close>

definition error_status_host :: host where
  "error_status_host = example_host\<lparr>fetchApi := (\<lambda>url req. Fulfilled 500)\<rparr>"

text \<open>A host whose requests fail, and a node with a selector.\<close>

definition offline_host :: host where
  "offline_host = example_host\<lparr>fetchApi := (\<lambda>url req. Rejected (HostError (js ''Failed to fetch'')))\<rparr>"

definition example_selector :: widget where
  "example_selector =
     \<lparr>name = js ''key_selector'', wvalue = js ''prod'', options_values = [js ''prod'']\<rparr>"

definition example_node :: node where
  "example_node =
     \<lparr>widgets = Some [\<lparr>name = js ''status_display'', wvalue = js ''Active: prod'',
                        options_values = []\<rparr>,
                      example_selector],
      dirty_canvas = False\<rparr>"

section \<open>Notions used in the proofs\<close>

text \<open>The tokens of the members of a serialized credential set, and the object the
  parser builds from them.\<close>

fun member_tokens :: "(jsstring \<times> jsstring) list \<Rightarrow> token list" where
  "member_tokens [] = []"
| "member_tokens [e] = [TStr (fst e), TColon, TStr (snd e)]"
| "member_tokens (e # f # es) =
     TStr (fst e) # TColon # TStr (snd e) # TComma # member_tokens (f # es)"

definition define_all ::
  "(jsstring \<times> json) list \<Rightarrow> (jsstring \<times> jsstring) list \<Rightarrow> (jsstring \<times> json) list" where
  "define_all acc es = foldl (\<lambda>a e. obj_define (fst e) (JStr (snd e)) a) acc es"

definition plain :: "json \<Rightarrow> bool" where
  "plain v = (case v of JObj kvs \<Rightarrow> own_properties kvs | _ \<Rightarrow> True)"

definition mode_ok :: "mode \<Rightarrow> bool" where
  "mode_ok m = (case m of MAfter v \<Rightarrow> plain v | _ \<Rightarrow> True)"

definition frame_ok :: "frame \<Rightarrow> bool" where
  "frame_ok f = (case f of FObj kvs \<Rightarrow> own_properties kvs | _ \<Rightarrow> True)"

section \<open>Facts about the JSON codec\<close>

subsection \<open>A quoted string is read back as it was\<close>

lemma hex_val_hex_digits: "list_all (\<lambda>n. hex_val (hex_digit n) = Some n) [0..<16]"
  by code_simp

lemma hex_val_hex_digit: "n < 16 \<Longrightarrow> hex_val (hex_digit n) = Some n"
  using hex_val_hex_digits by (simp add: list_all_iff)

lemma hex_digits_value:
  "4096 * (n div 4096) + 256 * (n div 256 mod 16) + 16 * (n div 16 mod 16) + n mod 16 = (n::nat)"
proof -
  have a: "n div 256 = n div 16 div 16" and b: "n div 4096 = n div 16 div 16 div 16"
    by (simp_all add: div_mult2_eq)
  have "16 * (n div 16) + n mod 16 = n" by simp
  moreover have "16 * (n div 16 div 16) + n div 16 mod 16 = n div 16" by simp
  moreover have "16 * (n div 16 div 16 div 16) + n div 16 div 16 mod 16 = n div 16 div 16" by simp
  ultimately show ?thesis unfolding a b by linarith
qed

lemma hex4_UnicodeEscape:
  "hex4 (hex_digit (unat c div 4096)) (hex_digit (unat c div 256 mod 16))
        (hex_digit (unat c div 16 mod 16)) (hex_digit (unat c mod 16)) = Some c"
proof -
  have "unat c < 65536" using unsigned_less [of c, where 'a = nat] by simp
  then have "unat c div 4096 < 16" by simp
  then show ?thesis
    by (simp add: hex4_def hex_val_hex_digit hex_digits_value)
qed

lemma cons_fst_Some [simp]: "cons_fst u (Some (s, r)) = Some (u # s, r)"
  by (simp add: cons_fst_def)

lemma lex_string_raw:
  "c \<noteq> 0x22 \<Longrightarrow> c \<noteq> 0x5C \<Longrightarrow> \<not> c < 0x20 \<Longrightarrow> lex_string t = Some (s, r) \<Longrightarrow>
   lex_string (c # t) = Some (c # s, r)"
  by simp

lemma lex_string_uescape:
  "lex_string t = Some (s, r) \<Longrightarrow> lex_string (UnicodeEscape c @ t) = Some (c # s, r)"
  by (simp add: UnicodeEscape_def hex4_UnicodeEscape)

lemma lex_string_quote_unit:
  assumes "lex_string t = Some (s, r)"
  shows "lex_string (quote_unit c @ t) = Some (c # s, r)"
proof -
  consider "c = 0x08" | "c = 0x09" | "c = 0x0A" | "c = 0x0C" | "c = 0x0D" | "c = 0x22"
    | "c = 0x5C"
    | "c \<notin> {0x08, 0x09, 0x0A, 0x0C, 0x0D, 0x22, 0x5C}" "c < 0x20 \<or> is_lead c \<or> is_trail c"
    | "c \<notin> {0x08, 0x09, 0x0A, 0x0C, 0x0D, 0x22, 0x5C}" "\<not> (c < 0x20 \<or> is_lead c \<or> is_trail c)"
    by blast
  then show ?thesis
  proof cases
    case 8
    then show ?thesis
      using lex_string_uescape [OF assms, of c] by (simp add: quote_unit_def)
  next
    case 9
    then show ?thesis
      using lex_string_raw [OF _ _ _ assms, of c] by (simp add: quote_unit_def)
  qed (simp_all add: quote_unit_def unescape_def assms)
qed

lemma surrogate_raw:
  assumes "is_lead c \<or> is_trail c"
  shows "c \<noteq> 0x22 \<and> c \<noteq> 0x5C \<and> \<not> c < 0x20"
proof -
  from assms have "55296 \<le> unat c"
    by (auto simp: is_lead_def is_trail_def word_le_nat_alt)
  then show ?thesis
    by (auto simp: word_less_nat_alt)
qed

lemma lex_string_pair:
  "is_lead c \<Longrightarrow> is_trail d \<Longrightarrow> lex_string t = Some (s, r) \<Longrightarrow>
   lex_string (c # d # t) = Some (c # d # s, r)"
  using surrogate_raw [of c] surrogate_raw [of d] by (simp add: lex_string_raw)

lemma lex_string_quote_body:
  "lex_string (quote_body s @ 0x22 # r) = Some (s, r)"
proof (induction s rule: quote_body.induct)
  case 1
  show ?case by simp
next
  case (2 c)
  have "lex_string (0x22 # r) = Some ([], r)" by simp
  from lex_string_quote_unit [OF this, of c] show ?case by simp
next
  case (3 c d cs)
  show ?case
  proof (cases "is_lead c \<and> is_trail d")
    case True
    then have "lex_string (quote_body cs @ 0x22 # r) = Some (cs, r)" using 3 by simp
    from lex_string_pair [OF _ _ this, of c d] True show ?thesis
      by (simp del: lex_string.simps)
  next
    case False
    then have "lex_string (quote_body (d # cs) @ 0x22 # r) = Some (d # cs, r)" using 3 by simp
    moreover from False have "quote_body (c # d # cs) = quote_unit c @ quote_body (d # cs)"
      by (simp only: quote_body.simps if_False)
    ultimately show ?thesis
      using lex_string_quote_unit [of "quote_body (d # cs) @ 0x22 # r" "d # cs" r c]
      by (simp del: lex_string.simps quote_body.simps)
  qed
qed

subsection \<open>A serialized credential set is parsed back\<close>

lemma tokens_QuoteJSONString:
  "tokens (QuoteJSONString s @ r) = cons_tok (TStr s) (tokens r)"
  by (simp add: QuoteJSONString_def lex_string_quote_body is_json_ws_def del: lex_string.simps)

lemma tokens_member:
  "tokens (QuoteJSONString k @ 0x3A # QuoteJSONString v @ r) =
     map_option (\<lambda>ts. TStr k # TColon # TStr v # ts) (tokens r)"
  by (cases "tokens r")
     (simp_all add: tokens_QuoteJSONString is_json_ws_def cons_tok_def del: tokens.simps,
      simp_all add: tokens_QuoteJSONString is_json_ws_def cons_tok_def)

lemma tokens_members:
  "tokens (join_comma (map (\<lambda>e. QuoteJSONString (fst e) @ 0x3A # QuoteJSONString (snd e)) es) @ r)
     = map_option ((@) (member_tokens es)) (tokens r)"
proof (induction es rule: member_tokens.induct)
  case 1
  show ?case by (cases "tokens r") simp_all
next
  case (2 e)
  show ?case by (cases "tokens r") (simp_all add: tokens_member del: tokens.simps)
next
  case (3 e f es)
  have "tokens (0x2C # t) = cons_tok TComma (tokens t)" for t
    by (simp add: is_json_ws_def)
  with 3 show ?case
    by (cases "tokens r") (simp_all add: tokens_member cons_tok_def del: tokens.simps)
qed

lemma JSON_stringify_CredentialSet:
  "JSON_stringify nts (CredentialSet es) =
     0x7B # join_comma (map (\<lambda>e. QuoteJSONString (fst e) @ 0x3A # QuoteJSONString (snd e)) es)
       @ [0x7D]"
  by (simp add: CredentialSet_def comp_def)

lemma tokens_CredentialSet:
  "tokens (JSON_stringify nts (CredentialSet es)) = Some (TLBrace # member_tokens es @ [TRBrace])"
proof -
  have open_brace: "tokens (0x7B # t) = cons_tok TLBrace (tokens t)" for t
    by (simp add: is_json_ws_def)
  have close_brace: "tokens [0x7D] = Some [TRBrace]"
    by (simp add: is_json_ws_def cons_tok_def)
  show ?thesis
    unfolding JSON_stringify_CredentialSet
    by (simp add: open_brace close_brace tokens_members cons_tok_def del: tokens.simps)
qed

lemma parse_run_members:
  "m = MKey \<or> m = MKeyOrClose \<Longrightarrow>
   parse_run m (FObj acc # st) (member_tokens (e # es) @ TRBrace # ts) =
   parse_run (MAfter (JObj (define_all acc (e # es)))) st ts"
proof (induction es arbitrary: m acc e)
  case Nil
  then show ?case by (auto simp: define_all_def)
next
  case (Cons f es)
  from Cons.IH [of MKey "obj_define (fst e) (JStr (snd e)) acc" f, simplified] Cons.prems
  show ?case by (auto simp: define_all_def)
qed

lemma parse_run_CredentialSet:
  "parse_run MValue [] (TLBrace # member_tokens es @ [TRBrace]) = Some (JObj (define_all [] es))"
proof (cases es)
  case Nil
  then show ?thesis by (simp add: define_all_def)
next
  case (Cons e es')
  with parse_run_members [of MKeyOrClose "[]" "[]" e es' "[]"] show ?thesis by simp
qed

lemma own_properties_append:
  "own_properties (xs @ ys) \<Longrightarrow> own_properties xs"
  by (induction xs) auto

lemma obj_define_last:
  "own_properties (acc @ [(k, v)]) \<Longrightarrow> obj_define k v acc = acc @ [(k, v)]"
  by (induction acc) auto

lemma define_all_own_properties:
  "own_properties (acc @ map (\<lambda>e. (fst e, JStr (snd e))) es) \<Longrightarrow>
   define_all acc es = acc @ map (\<lambda>e. (fst e, JStr (snd e))) es"
proof (induction es arbitrary: acc)
  case Nil
  show ?case by (simp add: define_all_def)
next
  case (Cons e es)
  let ?p = "(fst e, JStr (snd e))"
  from Cons.prems have all: "own_properties ((acc @ [?p]) @ map (\<lambda>e. (fst e, JStr (snd e))) es)"
    by simp
  then have "own_properties (acc @ [?p])" by (rule own_properties_append)
  then have "obj_define (fst e) (JStr (snd e)) acc = acc @ [?p]" by (rule obj_define_last)
  with Cons.IH [OF all] show ?case by (simp add: define_all_def)
qed

lemma JSON_parse_stringify_CredentialSet:
  assumes "own_properties (map (\<lambda>e. (fst e, JStr (snd e))) es)"
  shows "JSON_parse (JSON_stringify nts (CredentialSet es)) = Normal (CredentialSet es)"
proof -
  have "JSON_parse (JSON_stringify nts (CredentialSet es)) = Normal (JObj (define_all [] es))"
    by (simp add: JSON_parse_def tokens_CredentialSet parse_run_CredentialSet del: parse_run.simps)
  with define_all_own_properties [of "[]" es] assms show ?thesis
    by (simp add: CredentialSet_def)
qed

subsection \<open>Parsed objects keep the own-property order\<close>

lemma key_before_asym: "key_before a b \<Longrightarrow> \<not> key_before b a"
  by (auto simp: key_before_def split: if_splits)

lemma key_before_trans: "key_before a b \<Longrightarrow> key_before b c \<Longrightarrow> key_before a c"
  by (auto simp: key_before_def split: if_splits)

lemma fst_obj_define: "fst ` set (obj_define k v ps) = insert k (fst ` set ps)"
  by (induction ps) auto

lemma own_properties_obj_define:
  "own_properties ps \<Longrightarrow> own_properties (obj_define k v ps)"
proof (induction ps)
  case Nil
  show ?case by simp
next
  case (Cons p ps)
  show ?case
  proof (cases "k = fst p")
    case True
    with Cons.prems show ?thesis by simp
  next
    case ne: False
    show ?thesis
    proof (cases "key_before k (fst p)")
      case True
      have "fst q \<noteq> k \<and> \<not> key_before (fst q) k" if "q \<in> set ps" for q
      proof -
        from that Cons.prems have q: "fst q \<noteq> fst p" "\<not> key_before (fst q) (fst p)"
          by (auto simp: list_all_iff)
        from q(2) True have "fst q \<noteq> k" by auto
        moreover from q(2) True have "\<not> key_before (fst q) k"
          using key_before_trans by blast
        ultimately show ?thesis by simp
      qed
      with True ne Cons.prems key_before_asym [OF True] show ?thesis
        by (auto simp: list_all_iff)
    next
      case False
      have "list_all (\<lambda>q. fst q \<noteq> fst p \<and> \<not> key_before (fst q) (fst p)) (obj_define k v ps)"
      proof -
        have "fst q \<noteq> fst p \<and> \<not> key_before (fst q) (fst p)" if "q \<in> set (obj_define k v ps)" for q
        proof -
          from that have "fst q \<in> insert k (fst ` set ps)"
            using fst_obj_define [of k v ps] by (metis imageI)
          with Cons.prems ne False show ?thesis
            by (auto simp: list_all_iff)
        qed
        then show ?thesis by (simp add: list_all_iff)
      qed
      with False ne Cons show ?thesis by simp
    qed
  qed
qed

lemma value_start_ok:
  "value_start t st = Some (m', st') \<Longrightarrow> list_all frame_ok st \<Longrightarrow>
   mode_ok m' \<and> list_all frame_ok st'"
  by (cases t) (auto simp: mode_ok_def plain_def frame_ok_def)

lemma pstep_ok:
  "pstep m st t = Some (m', st') \<Longrightarrow> mode_ok m \<Longrightarrow> list_all frame_ok st \<Longrightarrow>
   mode_ok m' \<and> list_all frame_ok st'"
proof (cases m)
  case MValue
  then show "pstep m st t = Some (m', st') \<Longrightarrow> list_all frame_ok st \<Longrightarrow> ?thesis"
    using value_start_ok [of t st m' st'] by simp
next
  case MValueOrClose
  then show "pstep m st t = Some (m', st') \<Longrightarrow> list_all frame_ok st \<Longrightarrow> ?thesis"
    using value_start_ok [of t st m' st']
    by (auto simp: mode_ok_def plain_def frame_ok_def split: if_splits list.splits frame.splits)
next
  case MKeyOrClose
  then show "pstep m st t = Some (m', st') \<Longrightarrow> list_all frame_ok st \<Longrightarrow> ?thesis"
    by (auto simp: mode_ok_def plain_def frame_ok_def split: token.splits list.splits frame.splits)
next
  case MKey
  then show "pstep m st t = Some (m', st') \<Longrightarrow> list_all frame_ok st \<Longrightarrow> ?thesis"
    by (auto simp: mode_ok_def plain_def frame_ok_def split: token.splits)
next
  case MColon
  then show "pstep m st t = Some (m', st') \<Longrightarrow> list_all frame_ok st \<Longrightarrow> ?thesis"
    by (auto simp: mode_ok_def plain_def frame_ok_def split: token.splits)
next
  case (MAfter v)
  then show "pstep m st t = Some (m', st') \<Longrightarrow> list_all frame_ok st \<Longrightarrow> ?thesis"
    by (auto simp: mode_ok_def plain_def frame_ok_def own_properties_obj_define
             split: token.splits list.splits frame.splits)
qed

lemma parse_run_ok:
  "parse_run m st ts = Some v \<Longrightarrow> mode_ok m \<Longrightarrow> list_all frame_ok st \<Longrightarrow> plain v"
proof (induction ts arbitrary: m st)
  case Nil
  then show ?case by (auto simp: mode_ok_def split: mode.splits if_splits)
next
  case (Cons t ts)
  from Cons.prems(1) obtain m' st' where
    step: "pstep m st t = Some (m', st')" and run: "parse_run m' st' ts = Some v"
    by (auto split: option.splits)
  from pstep_ok [OF step Cons.prems(2,3)] Cons.IH [OF run] show ?case by simp
qed

lemma JSON_parse_own_properties:
  "JSON_parse t = Normal (JObj kvs) \<Longrightarrow> own_properties kvs"
  using parse_run_ok [of MValue "[]" _ "JObj kvs"]
  by (auto simp: JSON_parse_def mode_ok_def plain_def split: option.splits)

lemma loadKeys_own_properties:
  "loadKeys h s = JObj kvs \<Longrightarrow> own_properties kvs"
  using JSON_parse_own_properties
  by (auto simp: loadKeys_def split: completion.splits if_splits)

section \<open>Facts about the storage helpers\<close>

lemma getItem_setItem [simp]:
  "getItem (setItem k v s) k' = (if k' = k then Some v else getItem s k')"
  by (simp add: getItem_def setItem_def)

lemma events_setItem [simp]: "events (setItem k v s) = events s"
  by (simp add: setItem_def)

lemma storage_keys_differ [simp]:
  "KEYS_STORAGE \<noteq> ACTIVE_STORAGE" "ACTIVE_STORAGE \<noteq> KEYS_STORAGE"
  by (simp_all add: KEYS_STORAGE_def ACTIVE_STORAGE_def js_def)

lemma loadKeys_setItem_other:
  "k \<noteq> KEYS_STORAGE \<Longrightarrow> loadKeys h (setItem k v s) = loadKeys h s"
  by (simp add: loadKeys_def)

lemma getActiveKeyName_saveKeys [simp]:
  "getActiveKeyName (saveKeys h keys s) = getActiveKeyName s"
  by (simp add: getActiveKeyName_def saveKeys_def)

lemma truthy_CredentialSet [simp]: "truthy h (CredentialSet es)"
  by (simp add: CredentialSet_def)

lemma loadKeys_saveKeys_CredentialSet:
  "own_properties (map (\<lambda>e. (fst e, JStr (snd e))) es) \<Longrightarrow>
   loadKeys h (saveKeys h (CredentialSet es) s) = CredentialSet es"
  by (simp add: loadKeys_def saveKeys_def JSON_parse_stringify_CredentialSet)

lemma JSON_parse_null: "JSON_parse (js ''null'') = Normal JNull"
  by (simp add: JSON_parse_def js_def is_json_ws_def is_digit_def cons_tok_def)

section \<open>Facts about the dialog and the selector\<close>

lemma own_properties_distinct: "own_properties kvs \<Longrightarrow> distinct (map fst kvs)"
  by (induction kvs) (auto simp: list_all_iff)

lemma own_properties_filter: "own_properties kvs \<Longrightarrow> own_properties (filter P kvs)"
  by (induction kvs) (auto simp: list_all_iff)

lemma entries_distinct:
  "own_properties (map (\<lambda>e. (fst e, JStr (snd e))) es) \<Longrightarrow> distinct (map fst es)"
  using own_properties_distinct [of "map (\<lambda>e. (fst e, JStr (snd e))) es"]
  by (simp add: comp_def)

lemma map_of_entries:
  "distinct (map fst es) \<Longrightarrow> e \<in> set es \<Longrightarrow>
   map_of (map (\<lambda>e. (fst e, JStr (snd e))) es) (fst e) = Some (JStr (snd e))"
  by (induction es) (auto simp: rev_image_eqI)

lemma js_get_entry:
  "distinct (map fst es) \<Longrightarrow> e \<in> set es \<Longrightarrow>
   js_get h (CredentialSet es) (fst e) = Val (JStr (snd e))"
  by (simp add: js_get_def CredentialSet_def map_of_entries)

lemma Object_keys_CredentialSet [simp]: "Object_keys (CredentialSet es) = map fst es"
  by (simp add: CredentialSet_def comp_def)

lemma render_rows_CredentialSet:
  "distinct (map fst es) \<Longrightarrow> set es' \<subseteq> set es \<Longrightarrow>
   render_rows h (CredentialSet es) (map fst es') =
     Normal (map (\<lambda>e. info_textContent (fst e) (take 8 (snd e) @ js ''...'')) es')"
  by (induction es') (simp_all add: js_get_entry preview_def)

lemma render_CredentialSet:
  assumes "loadKeys h s = CredentialSet es"
  shows "render h s =
     Normal (if es = [] then NoKeysSaved
             else Rows (map (\<lambda>e. info_textContent (fst e) (take 8 (snd e) @ js ''...'')) es))"
proof -
  from assms have "own_properties (map (\<lambda>e. (fst e, JStr (snd e))) es)"
    using loadKeys_own_properties [of h s] by (simp add: CredentialSet_def)
  then have "distinct (map fst es)" by (rule entries_distinct)
  from render_rows_CredentialSet [OF this, of es h] assms show ?thesis
    by (simp add: render_def)
qed

lemma js_delete_CredentialSet:
  "js_delete h (CredentialSet es) n = Normal (CredentialSet (filter (\<lambda>e. fst e \<noteq> n) es))"
  by (simp add: js_delete_def CredentialSet_def filter_map comp_def)

lemma loadKeys_entries_own_properties:
  "loadKeys h s = CredentialSet es \<Longrightarrow> own_properties (map (\<lambda>e. (fst e, JStr (snd e))) es)"
  using loadKeys_own_properties [of h s] by (simp add: CredentialSet_def)

lemma loadKeys_setActiveKeyName [simp]:
  "loadKeys h (setActiveKeyName a s) = loadKeys h s"
  by (simp add: setActiveKeyName_def loadKeys_setItem_other)

lemma getActiveKeyName_setActiveKeyName [simp]:
  "getActiveKeyName (setActiveKeyName a s) = a"
  by (simp add: getActiveKeyName_def setActiveKeyName_def)

lemma getItem_saveKeys_active [simp]:
  "getItem (saveKeys h keys s) ACTIVE_STORAGE = getItem s ACTIVE_STORAGE"
  by (simp add: saveKeys_def)

lemma loadKeys_after_delete:
  assumes "loadKeys h s = CredentialSet es"
  shows "loadKeys h (saveKeys h (CredentialSet (filter (\<lambda>e. fst e \<noteq> n) es)) s)
           = CredentialSet (filter (\<lambda>e. fst e \<noteq> n) es)"
proof -
  have "own_properties (filter (\<lambda>p. fst p \<noteq> n) (map (\<lambda>e. (fst e, JStr (snd e))) es))"
    using loadKeys_entries_own_properties [OF assms] by (rule own_properties_filter)
  then have "own_properties (map (\<lambda>e. (fst e, JStr (snd e))) (filter (\<lambda>e. fst e \<noteq> n) es))"
    by (simp add: filter_map comp_def)
  then show ?thesis by (rule loadKeys_saveKeys_CredentialSet)
qed

lemma obj_define_existing:
  "own_properties kvs \<Longrightarrow> k \<in> fst ` set kvs \<Longrightarrow>
   obj_define k v kvs = map (\<lambda>p. if fst p = k then (k, v) else p) kvs"
proof (induction kvs)
  case Nil
  then show ?case by simp
next
  case (Cons p ps)
  show ?case
  proof (cases "k = fst p")
    case True
    from Cons.prems(1) have "\<forall>q \<in> set ps. fst q \<noteq> k"
      using True by (auto simp: list_all_iff)
    then have "map (\<lambda>q. if fst q = k then (k, v) else q) ps = ps"
      by (induction ps) auto
    with True show ?thesis by simp
  next
    case False
    with Cons.prems have "\<not> key_before k (fst p)"
      by (auto simp: list_all_iff)
    with False Cons show ?thesis by auto
  qed
qed

lemma js_set_existing:
  assumes "own_properties (map (\<lambda>e. (fst e, JStr (snd e))) es)" and "n \<in> fst ` set es"
  shows "js_set h (CredentialSet es) n k =
           Normal (CredentialSet (map (\<lambda>e. if fst e = n then (n, k) else e) es))"
proof -
  let ?kvs = "map (\<lambda>e. (fst e, JStr (snd e))) es"
  from assms(2) have mem: "n \<in> fst ` set ?kvs" by (force simp: image_iff)
  then have "map_of ?kvs n \<noteq> None" by (simp add: map_of_eq_None_iff)
  moreover have "obj_define n (JStr k) ?kvs =
      map (\<lambda>e. (fst e, JStr (snd e))) (map (\<lambda>e. if fst e = n then (n, k) else e) es)"
    using obj_define_existing [OF assms(1) mem, of "JStr k"] by (simp add: comp_def if_distrib cong: if_cong)
  ultimately show ?thesis
    by (auto simp: js_set_def CredentialSet_def)
qed

lemma own_properties_overwrite:
  assumes "own_properties (map (\<lambda>e. (fst e, JStr (snd e))) es)"
  shows "own_properties (map (\<lambda>e. (fst e, JStr (snd e))) (map (\<lambda>e. if fst e = n then (n, k) else e) es))"
proof -
  have "own_properties (map (\<lambda>p. (fst p, f p)) kvs) = own_properties kvs" for f :: "jsstring \<times> json \<Rightarrow> json" and kvs
    by (induction kvs) (simp_all add: list_all_iff)
  from this [of "\<lambda>p. if fst p = n then JStr k else snd p" "map (\<lambda>e. (fst e, JStr (snd e))) es"] assms
  show ?thesis
    by (simp add: comp_def if_distrib cong: if_cong)
qed

lemma find_update_first:
  "(\<And>x. P x \<Longrightarrow> P (f x)) \<Longrightarrow> find P (update_first P f ws) = map_option f (find P ws)"
  by (induction ws) auto

lemma find_combo_refreshNodeWidgets:
  assumes "find_combo nd = Some w"
  shows "map_option find_combo (refreshNodeWidgets h s (Some nd)) =
     Some (Some (let names = Object_keys (loadKeys h s);
                     options = (if names = [] then [js ''(no keys)''] else names);
                     active = getActiveKeyName s
                 in w\<lparr>options_values := options,
                      wvalue := (if active \<in> set names then active else hd options)\<rparr>))"
proof -
  from assms obtain ws where ws: "widgets nd = Some ws"
    and w: "find (\<lambda>w. name w = js ''key_selector'') ws = Some w"
    by (auto simp: find_combo_def split: option.splits)
  show ?thesis
    using ws w
    by (simp add: refreshNodeWidgets_def find_combo_def Let_def find_update_first)
qed

lemma obj_define_entries:
  "\<exists>es'. obj_define n (JStr k) (map (\<lambda>e. (fst e, JStr (snd e))) es)
           = map (\<lambda>e. (fst e, JStr (snd e))) es'"
proof (induction es)
  case Nil
  show ?case by (rule exI [of _ "[(n, k)]"]) simp
next
  case (Cons e es)
  then obtain es' where es': "obj_define n (JStr k) (map (\<lambda>e. (fst e, JStr (snd e))) es)
           = map (\<lambda>e. (fst e, JStr (snd e))) es'" ..
  show ?case
  proof (cases "n = fst e")
    case True
    show ?thesis by (rule exI [of _ "(n, k) # es"]) (simp add: True)
  next
    case ne: False
    show ?thesis
    proof (cases "key_before n (fst e)")
      case True
      show ?thesis by (rule exI [of _ "(n, k) # e # es"]) (simp add: True ne)
    next
      case False
      show ?thesis by (rule exI [of _ "e # es'"]) (simp add: False ne es')
    qed
  qed
qed

lemma del_onclick_result:
  assumes "loadKeys h s = CredentialSet es"
  shows "\<exists>s' l. del_onclick h n (s, d) =
           (Normal (), s', \<lparr>listing = l, bound_node = refreshNodeWidgets h s' (bound_node d)\<rparr>)
         \<and> loadKeys h s' = CredentialSet (filter (\<lambda>e. fst e \<noteq> n) es)
         \<and> getActiveKeyName s' = (if getActiveKeyName s = n then [] else getActiveKeyName s)"
proof -
  let ?es = "filter (\<lambda>e. fst e \<noteq> n) es"
  let ?s1 = "saveKeys h (CredentialSet ?es) s"
  let ?s2 = "if getActiveKeyName ?s1 = n then setActiveKeyName [] ?s1 else ?s1"
  have del: "js_delete h (loadKeys h s) n = Normal (CredentialSet ?es)"
    using assms by (simp add: js_delete_CredentialSet)
  have keys: "loadKeys h ?s2 = CredentialSet ?es"
    using loadKeys_after_delete [OF assms, of n] by simp
  from render_CredentialSet [OF keys] obtain l where l: "render h ?s2 = Normal l"
    by simp
  have "del_onclick h n (s, d) =
      (Normal (), ?s2, \<lparr>listing = l, bound_node = refreshNodeWidgets h ?s2 (bound_node d)\<rparr>)"
    using del l by (simp add: del_onclick_def Let_def)
  moreover have "getActiveKeyName ?s2 = (if getActiveKeyName s = n then [] else getActiveKeyName s)"
    by simp
  ultimately show ?thesis using keys by blast
qed

lemma getActiveKeyName_item:
  "getActiveKeyName s = (case getItem s ACTIVE_STORAGE of None \<Rightarrow> [] | Some a \<Rightarrow> a)"
  by (simp add: getActiveKeyName_def split: option.splits)

lemma find_combo_refreshed:
  assumes "find_combo nd = Some w"
  shows "map_option find_combo (refreshNodeWidgets h s (Some nd)) =
     Some (Some (notified_selector (Object_keys (loadKeys h s)) (getActiveKeyName s) w))"
proof -
  have "(let names = Object_keys (loadKeys h s);
             options = (if names = [] then [js ''(no keys)''] else names);
             active = getActiveKeyName s
         in w\<lparr>options_values := options,
              wvalue := (if active \<in> set names then active else hd options)\<rparr>)
        = notified_selector (Object_keys (loadKeys h s)) (getActiveKeyName s) w"
    by (simp add: notified_selector_def Let_def)
  with find_combo_refreshNodeWidgets [OF assms, of h s] show ?thesis
    by (simp only:)
qed

lemma js_set_entries:
  assumes "own_properties (map (\<lambda>e. (fst e, JStr (snd e))) es)"
  shows "\<exists>es'. js_set h (CredentialSet es) n k = Normal (CredentialSet es')
               \<and> own_properties (map (\<lambda>e. (fst e, JStr (snd e))) es')
               \<and> map fst es' =
                   (if n = js ''__proto__'' \<and> n \<notin> fst ` set es then map fst es
                    else map fst (obj_define n (JStr k) (map (\<lambda>e. (fst e, JStr (snd e))) es)))"
proof -
  let ?kvs = "map (\<lambda>e. (fst e, JStr (snd e))) es"
  have none: "map_of ?kvs n = None \<longleftrightarrow> n \<notin> fst ` set es"
    by (force simp: map_of_eq_None_iff image_iff)
  show ?thesis
  proof (cases "n = js ''__proto__'' \<and> n \<notin> fst ` set es")
    case True
    with none have "js_set h (CredentialSet es) n k = Normal (CredentialSet es)"
      by (auto simp: js_set_def CredentialSet_def)
    with assms True show ?thesis by auto
  next
    case False
    obtain es' where es': "obj_define n (JStr k) ?kvs = map (\<lambda>e. (fst e, JStr (snd e))) es'"
      using obj_define_entries by blast
    with False none have set: "js_set h (CredentialSet es) n k = Normal (CredentialSet es')"
      by (auto simp: js_set_def CredentialSet_def)
    from own_properties_obj_define [OF assms, of n "JStr k"] es'
    have wf: "own_properties (map (\<lambda>e. (fst e, JStr (snd e))) es')" by simp
    have "map fst es' = map fst (map (\<lambda>e. (fst e, JStr (snd e))) es')"
      by (simp add: comp_def)
    then have "map fst es' = map fst (obj_define n (JStr k) ?kvs)"
      by (simp only: es')
    with set wf False show ?thesis by auto
  qed
qed

lemma addBtn_onclick_entries:
  assumes "loadKeys h s = CredentialSet es" and "trim nameInput \<noteq> []" and "trim keyInput \<noteq> []"
  shows "\<exists>s' l es'. addBtn_onclick h nameInput keyInput (s, d) =
           (Normal (), s', \<lparr>listing = l, bound_node = refreshNodeWidgets h s' (bound_node d)\<rparr>)
         \<and> loadKeys h s' = CredentialSet es'
         \<and> map fst es' =
              (if trim nameInput = js ''__proto__'' \<and> trim nameInput \<notin> fst ` set es
               then map fst es
               else map fst (obj_define (trim nameInput) (JStr (trim keyInput))
                               (map (\<lambda>e. (fst e, JStr (snd e))) es)))
         \<and> getActiveKeyName s' = getActiveKeyName s"
proof -
  have wf: "own_properties (map (\<lambda>e. (fst e, JStr (snd e))) es)"
    using assms(1) by (rule loadKeys_entries_own_properties)
  from js_set_entries [OF wf, of h "trim nameInput" "trim keyInput"] obtain es' where
    set: "js_set h (CredentialSet es) (trim nameInput) (trim keyInput) = Normal (CredentialSet es')"
    and wf': "own_properties (map (\<lambda>e. (fst e, JStr (snd e))) es')"
    and names: "map fst es' =
              (if trim nameInput = js ''__proto__'' \<and> trim nameInput \<notin> fst ` set es
               then map fst es
               else map fst (obj_define (trim nameInput) (JStr (trim keyInput))
                               (map (\<lambda>e. (fst e, JStr (snd e))) es)))"
    by blast
  let ?s1 = "saveKeys h (CredentialSet es') s"
  have keys: "loadKeys h ?s1 = CredentialSet es'"
    using wf' by (rule loadKeys_saveKeys_CredentialSet)
  from render_CredentialSet [OF keys] obtain l where l: "render h ?s1 = Normal l"
    by simp
  have res: "addBtn_onclick h nameInput keyInput (s, d) =
      (Normal (), ?s1, \<lparr>listing = l, bound_node = refreshNodeWidgets h ?s1 (bound_node d)\<rparr>)"
    using set l assms by (simp add: addBtn_onclick_def Let_def)
  have active: "getActiveKeyName ?s1 = getActiveKeyName s" by simp
  show ?thesis
    apply (rule exI [of _ ?s1])
    apply (rule exI [of _ l])
    apply (rule exI [of _ es'])
    using res keys names active apply (intro conjI)
       apply assumption+
    done
qed

section \<open>Evaluation on the example inputs\<close>

lemmas run_simps =
  js_def stored_def getItem_def JSON_parse_def is_json_ws_def is_digit_def cons_tok_def
  cons_fst_def KEYS_STORAGE_def ACTIVE_STORAGE_def loadKeys_def example_host_def
  CredentialSet_def getActiveKeyName_def

section \<open>Properties of the storage helpers\<close>

text \<open>
  C7. For every credential set (an object whose values are strings), persisting it with
  \<open>saveKeys\<close> and reloading it with \<open>loadKeys\<close> gives back the same object: the
  same entries in the same order. The premise is the representation invariant of an
  object's own-property list, which every object meets.
\<close>

theorem saveKeys_loadKeys_round_trip:
  assumes "own_properties (map (\<lambda>e. (fst e, JStr (snd e))) es)"
  shows "loadKeys h (saveKeys h (CredentialSet es) s) = CredentialSet es"
proof -
  let ?text = "JSON_stringify (number_to_string h) (CredentialSet es)"
  have "getItem (saveKeys h (CredentialSet es) s) KEYS_STORAGE = Some ?text"
    by (simp add: saveKeys_def)
  moreover have "JSON_parse ?text = Normal (CredentialSet es)"
    using assms by (rule JSON_parse_stringify_CredentialSet)
  ultimately show ?thesis
    by (simp add: loadKeys_def)
qed

theorem saveKeys_loadKeys_round_trip_witness:
  "own_properties (map (\<lambda>e. (fst e, JStr (snd e))) [(js ''7'', js ''fal-bbb''), (js ''prod'', js ''fal-aaa111'')])
   \<and> loadKeys example_host
        (saveKeys example_host (CredentialSet [(js ''7'', js ''fal-bbb''), (js ''prod'', js ''fal-aaa111'')]) (stored []))
      = CredentialSet [(js ''7'', js ''fal-bbb''), (js ''prod'', js ''fal-aaa111'')]"
proof -
  have wf: "own_properties (map (\<lambda>e. (fst e, JStr (snd e))) [(js ''7'', js ''fal-bbb''), (js ''prod'', js ''fal-aaa111'')])"
    by (simp add: js_def key_before_def is_array_index_def is_digit_def)
  from wf saveKeys_loadKeys_round_trip [OF wf, of example_host "stored []"]
  show ?thesis by simp
qed

text \<open>
  C8, as the claim states it, fails: a stored text that parses to a value that is not a
  mapping but is truthy is returned as it is. Here the stored text is \<open>["x"]\<close> and
  \<open>loadKeys\<close> returns the array, not an empty credential set.
\<close>

theorem loadKeys_non_mapping_counterexample:
  "loadKeys example_host (stored [(KEYS_STORAGE, js ''[\"x\"]'')]) = JArr [JStr (js ''x'')]"
  by (simp add: loadKeys_def stored_def getItem_def JSON_parse_def js_def is_json_ws_def
      is_digit_def cons_tok_def)

text \<open>
  C8, amended. When the item is absent, when its text is rejected by \<open>JSON.parse\<close>, and
  when its text parses to a falsy value (\<open>null\<close>, \<open>false\<close>, zero, the empty string),
  \<open>loadKeys\<close> returns an empty credential set; the parse error is not propagated.
\<close>

theorem loadKeys_absent_or_unparseable:
  assumes "getItem s KEYS_STORAGE = None
           \<or> (\<exists>t. getItem s KEYS_STORAGE = Some t
                  \<and> ((\<exists>e. JSON_parse t = Throw e)
                       \<or> (\<exists>v. JSON_parse t = Normal v \<and> \<not> truthy h v)))"
  shows "loadKeys h s = JObj []"
  using assms by (auto simp: loadKeys_def JSON_parse_null)

theorem loadKeys_absent_or_unparseable_witness:
  "JSON_parse (js ''{\"prod\":'') = Throw SyntaxError
   \<and> loadKeys example_host (stored [(KEYS_STORAGE, js ''{\"prod\":'')]) = JObj []"
proof -
  have bad: "JSON_parse (js ''{\"prod\":'') = Throw SyntaxError"
    by (simp add: JSON_parse_def js_def is_json_ws_def is_digit_def cons_tok_def cons_fst_def)
  have "getItem (stored [(KEYS_STORAGE, js ''{\"prod\":'')]) KEYS_STORAGE = Some (js ''{\"prod\":'')"
    by (simp add: stored_def getItem_def)
  with bad loadKeys_absent_or_unparseable [of "stored [(KEYS_STORAGE, js ''{\"prod\":'')]" example_host]
  show ?thesis by blast
qed

section \<open>Properties of the push\<close>

text \<open>
  When the active name is neither an entry of the stored credential set nor the name of
  a property that the set inherits from \<open>Object.prototype\<close>, the push does nothing.
\<close>

lemma pushActiveKeyToServer_no_property:
  assumes "loadKeys h s = CredentialSet es"
    and "getActiveKeyName s \<notin> fst ` set es"
    and "getActiveKeyName s \<notin> set Object_prototype_functions"
    and "getActiveKeyName s \<noteq> js ''__proto__''"
  shows "pushActiveKeyToServer h s = (Normal (), s)"
proof -
  have "map_of (map (\<lambda>e. (fst e, JStr (snd e))) es) (getActiveKeyName s) = None"
    using assms(2) by (force simp: map_of_eq_None_iff image_iff)
  then have "js_get h (loadKeys h s) (getActiveKeyName s) = Undefined"
    using assms by (simp add: js_get_def CredentialSet_def)
  then show ?thesis
    by (simp add: pushActiveKeyToServer_def)
qed

text \<open>
  C4 does not hold of the program: \<open>keys[name]\<close> also finds the properties an object
  inherits. With no credential set stored and the active name \<open>toString\<close>, the value
  found is a function, which is truthy, and the push makes a network call; its body has
  no \<open>key\<close> member, since \<open>JSON.stringify\<close> leaves a function out.
\<close>

theorem pushActiveKeyToServer_inherited_property:
  "loadKeys example_host (stored [(ACTIVE_STORAGE, js ''toString'')]) = JObj []
   \<and> pushActiveKeyToServer example_host (stored [(ACTIVE_STORAGE, js ''toString'')])
     = (Normal (),
        \<lparr>localStorage = map_of [(ACTIVE_STORAGE, js ''toString'')],
         events = [FetchApi (js ''/fal-api/set-key'')
                     \<lparr>request_method = js ''POST'',
                      request_headers = [(js ''Content-Type'', js ''application/json'')],
                      request_body = js ''{\"name\":\"toString\"}''\<rparr>]\<rparr>)
   \<and> network_calls (snd (pushActiveKeyToServer example_host
                             (stored [(ACTIVE_STORAGE, js ''toString'')]))) = 1"
proof -
  let ?s = "stored [(ACTIVE_STORAGE, js ''toString'')]"
  have keys: "loadKeys example_host ?s = JObj []"
    by (simp add: run_simps)
  have active: "getActiveKeyName ?s = js ''toString''"
    by (simp add: run_simps)
  have key: "js_get example_host (JObj []) (js ''toString'') = Function (js ''toString'')"
    by (simp add: js_get_def Object_prototype_functions_def js_def)
  have fetch: "fetchApi example_host url req = Fulfilled 200" for url req
    by (simp add: example_host_def)
  have req: "set_key_request example_host (Function (js ''toString'')) (js ''toString'')
      = \<lparr>request_method = js ''POST'',
         request_headers = [(js ''Content-Type'', js ''application/json'')],
         request_body = js ''{\"name\":\"toString\"}''\<rparr>"
    by (simp add: set_key_request_def stringify_key_name_def QuoteJSONString_def
        quote_unit_def is_lead_def is_trail_def js_def)
  have push: "pushActiveKeyToServer example_host ?s
     = (Normal (),
        \<lparr>localStorage = map_of [(ACTIVE_STORAGE, js ''toString'')],
         events = [FetchApi (js ''/fal-api/set-key'')
                     \<lparr>request_method = js ''POST'',
                      request_headers = [(js ''Content-Type'', js ''application/json'')],
                      request_body = js ''{\"name\":\"toString\"}''\<rparr>]\<rparr>)"
    by (simp add: pushActiveKeyToServer_def Let_def keys active key req fetch)
       (simp add: stored_def)
  from keys push show ?thesis
    by (simp add: network_calls_def)
qed

text \<open>
  C5, as the claim states it, fails for a server failure: the response is never looked
  at, so a request that is answered with the status 500 is a success to the push. It
  makes the call and logs nothing.
\<close>

theorem pushActiveKeyToServer_error_status_counterexample:
  "pushActiveKeyToServer error_status_host
     (stored [(KEYS_STORAGE, js ''{\"prod\":\"fal-aaa111\"}''), (ACTIVE_STORAGE, js ''prod'')])
   = (Normal (),
      \<lparr>localStorage = map_of [(KEYS_STORAGE, js ''{\"prod\":\"fal-aaa111\"}''),
                               (ACTIVE_STORAGE, js ''prod'')],
       events = [FetchApi (js ''/fal-api/set-key'')
                   \<lparr>request_method = js ''POST'',
                    request_headers = [(js ''Content-Type'', js ''application/json'')],
                    request_body = js ''{\"key\":\"fal-aaa111\",\"name\":\"prod\"}''\<rparr>]\<rparr>)"
proof -
  let ?s = "stored [(KEYS_STORAGE, js ''{\"prod\":\"fal-aaa111\"}''), (ACTIVE_STORAGE, js ''prod'')]"
  let ?req = "\<lparr>request_method = js ''POST'',
                request_headers = [(js ''Content-Type'', js ''application/json'')],
                request_body = js ''{\"key\":\"fal-aaa111\",\"name\":\"prod\"}''\<rparr>"
  have keys: "loadKeys error_status_host ?s = JObj [(js ''prod'', JStr (js ''fal-aaa111''))]"
    by (simp add: run_simps error_status_host_def)
  have active: "getActiveKeyName ?s = js ''prod''"
    by (simp add: run_simps)
  have key: "js_get error_status_host (JObj [(js ''prod'', JStr (js ''fal-aaa111''))]) (js ''prod'')
      = Val (JStr (js ''fal-aaa111''))"
    by (simp add: js_get_def)
  have req: "set_key_request error_status_host (Val (JStr (js ''fal-aaa111''))) (js ''prod'') = ?req"
    by (simp add: set_key_request_def stringify_key_name_def QuoteJSONString_def
        quote_unit_def is_lead_def is_trail_def js_def)
  have truthy: "js ''fal-aaa111'' \<noteq> []"
    by (simp add: js_def)
  have status: "fetchApi error_status_host url r = Fulfilled 500" for url r
    by (simp add: error_status_host_def example_host_def)
  show ?thesis
    by (simp add: pushActiveKeyToServer_def Let_def keys active key req truthy status)
       (simp add: stored_def)
qed

text \<open>
  C5, amended. Whatever the outcome of the request, the promise of
  \<open>pushActiveKeyToServer\<close> resolves and the submission that follows proceeds (the
  wrapper completes as the original function does). When the request fails, that is when
  \<open>fetchApi\<close> throws or its promise rejects, the push has made the one network call and
  logged the error to the console, and nothing else. When the request is answered,
  whatever the status, the push has made the one network call and logged nothing. When
  there is no key to push, it has done nothing.
\<close>

theorem pushActiveKeyToServer_swallows_failure:
  "fst (pushActiveKeyToServer h s) = Normal ()
   \<and> (let name = getActiveKeyName s;
           key = js_get h (loadKeys h s) name;
           req = set_key_request h key name
       in (\<not> ToBoolean h key \<longrightarrow> snd (pushActiveKeyToServer h s) = s)
          \<and> (ToBoolean h key \<and> fetchApi h (js ''/fal-api/set-key'') req = Rejected e \<longrightarrow>
               snd (pushActiveKeyToServer h s) =
                 s\<lparr>events := events s @
                     [FetchApi (js ''/fal-api/set-key'') req,
                      ConsoleError (js ''[FAL Key Manager] Failed to push key to server:'') e]\<rparr>)
          \<and> (ToBoolean h key \<and> fetchApi h (js ''/fal-api/set-key'') req = Fulfilled status \<longrightarrow>
               snd (pushActiveKeyToServer h s) =
                 s\<lparr>events := events s @ [FetchApi (js ''/fal-api/set-key'') req]\<rparr>))
   \<and> fst (snd (installQueueHook h (False, origQueue)) args s) =
       fst (origQueue args (snd (pushActiveKeyToServer h s)))"
proof -
  have settled: "fst (pushActiveKeyToServer h s) = Normal ()"
    by (simp add: pushActiveKeyToServer_def Let_def split: fetch_outcome.splits)
  then obtain s1 where push: "pushActiveKeyToServer h s = (Normal (), s1)"
    by (cases "pushActiveKeyToServer h s") simp
  have proceeds: "fst (snd (installQueueHook h (False, origQueue)) args s) =
       fst (origQueue args (snd (pushActiveKeyToServer h s)))"
    by (simp add: installQueueHook_def push)
  have outcomes: "let name = getActiveKeyName s;
           key = js_get h (loadKeys h s) name;
           req = set_key_request h key name
       in (\<not> ToBoolean h key \<longrightarrow> snd (pushActiveKeyToServer h s) = s)
          \<and> (ToBoolean h key \<and> fetchApi h (js ''/fal-api/set-key'') req = Rejected e \<longrightarrow>
               snd (pushActiveKeyToServer h s) =
                 s\<lparr>events := events s @
                     [FetchApi (js ''/fal-api/set-key'') req,
                      ConsoleError (js ''[FAL Key Manager] Failed to push key to server:'') e]\<rparr>)
          \<and> (ToBoolean h key \<and> fetchApi h (js ''/fal-api/set-key'') req = Fulfilled status \<longrightarrow>
               snd (pushActiveKeyToServer h s) =
                 s\<lparr>events := events s @ [FetchApi (js ''/fal-api/set-key'') req]\<rparr>)"
    by (simp add: pushActiveKeyToServer_def Let_def)
  from settled outcomes proceeds show ?thesis by (intro conjI)
qed

theorem pushActiveKeyToServer_swallows_failure_witness:
  "pushActiveKeyToServer offline_host
     (stored [(KEYS_STORAGE, js ''{\"prod\":\"fal-aaa111\"}''), (ACTIVE_STORAGE, js ''prod'')])
   = (Normal (),
      \<lparr>localStorage = map_of [(KEYS_STORAGE, js ''{\"prod\":\"fal-aaa111\"}''),
                               (ACTIVE_STORAGE, js ''prod'')],
       events = [FetchApi (js ''/fal-api/set-key'')
                   \<lparr>request_method = js ''POST'',
                    request_headers = [(js ''Content-Type'', js ''application/json'')],
                    request_body = js ''{\"key\":\"fal-aaa111\",\"name\":\"prod\"}''\<rparr>,
                 ConsoleError (js ''[FAL Key Manager] Failed to push key to server:'')
                   (HostError (js ''Failed to fetch''))]\<rparr>)"
proof -
  let ?s = "stored [(KEYS_STORAGE, js ''{\"prod\":\"fal-aaa111\"}''), (ACTIVE_STORAGE, js ''prod'')]"
  let ?req = "\<lparr>request_method = js ''POST'',
                request_headers = [(js ''Content-Type'', js ''application/json'')],
                request_body = js ''{\"key\":\"fal-aaa111\",\"name\":\"prod\"}''\<rparr>"
  have keys: "loadKeys offline_host ?s = JObj [(js ''prod'', JStr (js ''fal-aaa111''))]"
    by (simp add: run_simps offline_host_def)
  have active: "getActiveKeyName ?s = js ''prod''"
    by (simp add: run_simps)
  have key: "js_get offline_host (JObj [(js ''prod'', JStr (js ''fal-aaa111''))]) (js ''prod'')
      = Val (JStr (js ''fal-aaa111''))"
    by (simp add: js_get_def)
  have req: "set_key_request offline_host (Val (JStr (js ''fal-aaa111''))) (js ''prod'') = ?req"
    by (simp add: set_key_request_def stringify_key_name_def QuoteJSONString_def
        quote_unit_def is_lead_def is_trail_def js_def)
  have truthy: "ToBoolean offline_host (Val (JStr (js ''fal-aaa111'')))"
    by (simp add: js_def)
  have rejected: "fetchApi offline_host (js ''/fal-api/set-key'') ?req
      = Rejected (HostError (js ''Failed to fetch''))"
    by (simp add: offline_host_def example_host_def)
  note push = pushActiveKeyToServer_swallows_failure
      [where h = offline_host and s = ?s and e = "HostError (js ''Failed to fetch'')"
         and origQueue = "\<lambda>args s. (Normal (), s)" and args = "[]" and status = 0]
  have "snd (pushActiveKeyToServer offline_host ?s) =
      ?s\<lparr>events := events ?s @ [FetchApi (js ''/fal-api/set-key'') ?req,
                   ConsoleError (js ''[FAL Key Manager] Failed to push key to server:'')
                     (HostError (js ''Failed to fetch''))]\<rparr>"
    using push truthy rejected
    unfolding keys active key req Let_def by blast
  moreover have "fst (pushActiveKeyToServer offline_host ?s) = Normal ()"
    using push by blast
  ultimately show ?thesis
    by (cases "pushActiveKeyToServer offline_host ?s") (simp add: stored_def)
qed

section \<open>Properties of the queue hook\<close>

text \<open>
  C1. For every invocation of the wrapper that \<open>installQueueHook\<close> puts in place of
  \<open>app.queuePrompt\<close>, with any argument list: the promise of
  \<open>pushActiveKeyToServer\<close> has settled, and it has resolved, before the original function
  starts; the original function is applied to all the arguments, in the state the push
  has left, and its result is the wrapper's result. This does not depend on how the
  request went.
\<close>

theorem queuePrompt_awaits_push:
  "fst (pushActiveKeyToServer h s) = Normal ()
   \<and> snd (installQueueHook h (False, origQueue)) args s =
       origQueue args (snd (pushActiveKeyToServer h s))"
proof -
  have settled: "fst (pushActiveKeyToServer h s) = Normal ()"
    by (simp add: pushActiveKeyToServer_def Let_def split: fetch_outcome.splits)
  then obtain s1 where push: "pushActiveKeyToServer h s = (Normal (), s1)"
    by (cases "pushActiveKeyToServer h s") simp
  have "snd (installQueueHook h (False, origQueue)) args s =
       origQueue args (snd (pushActiveKeyToServer h s))"
    by (simp add: installQueueHook_def push)
  with settled show ?thesis by (rule conjI)
qed

theorem queuePrompt_awaits_push_witness:
  "snd (installQueueHook example_host (False, \<lambda>args s. (Normal (length args), s))) [js ''a'', js ''b'']
     (stored [(KEYS_STORAGE, js ''{\"prod\":\"fal-aaa111\"}''), (ACTIVE_STORAGE, js ''prod'')])
   = (Normal 2,
      \<lparr>localStorage = map_of [(KEYS_STORAGE, js ''{\"prod\":\"fal-aaa111\"}''),
                               (ACTIVE_STORAGE, js ''prod'')],
       events = [FetchApi (js ''/fal-api/set-key'')
                   \<lparr>request_method = js ''POST'',
                    request_headers = [(js ''Content-Type'', js ''application/json'')],
                    request_body = js ''{\"key\":\"fal-aaa111\",\"name\":\"prod\"}''\<rparr>]\<rparr>)"
proof -
  let ?s = "stored [(KEYS_STORAGE, js ''{\"prod\":\"fal-aaa111\"}''), (ACTIVE_STORAGE, js ''prod'')]"
  have keys: "loadKeys example_host ?s = JObj [(js ''prod'', JStr (js ''fal-aaa111''))]"
    by (simp add: run_simps)
  have active: "getActiveKeyName ?s = js ''prod''"
    by (simp add: run_simps)
  have "pushActiveKeyToServer example_host ?s =
      (Normal (),
       \<lparr>localStorage = map_of [(KEYS_STORAGE, js ''{\"prod\":\"fal-aaa111\"}''),
                               (ACTIVE_STORAGE, js ''prod'')],
        events = [FetchApi (js ''/fal-api/set-key'')
                   \<lparr>request_method = js ''POST'',
                    request_headers = [(js ''Content-Type'', js ''application/json'')],
                    request_body = js ''{\"key\":\"fal-aaa111\",\"name\":\"prod\"}''\<rparr>]\<rparr>)"
    unfolding pushActiveKeyToServer_def keys active
    by (simp add: js_get_def set_key_request_def stringify_key_name_def QuoteJSONString_def
        quote_unit_def is_lead_def is_trail_def js_def stored_def example_host_def)
  with queuePrompt_awaits_push [of example_host ?s "\<lambda>args s. (Normal (length args), s)" "[js ''a'', js ''b'']"]
  show ?thesis by simp
qed

section \<open>Properties of the dialog\<close>

text \<open>
  C3, as the claim states it, fails for a secret of at most 8 code units: the preview is
  the whole secret. With the entry \<open>k\<close>, \<open>abc\<close> stored, the row reads \<open>k  (abc...)\<close>,
  which contains \<open>abc\<close>.
\<close>

theorem render_short_secret_counterexample:
  "render example_host (stored [(KEYS_STORAGE, js ''{\"k\":\"abc\"}'')])
     = Normal (Rows [js ''k  (abc...)''])
   \<and> sublist (js ''abc'') (js ''k  (abc...)'')"
proof -
  let ?s = "stored [(KEYS_STORAGE, js ''{\"k\":\"abc\"}'')]"
  have keys: "loadKeys example_host ?s = CredentialSet [(js ''k'', js ''abc'')]"
    by (simp add: run_simps)
  from render_CredentialSet [OF keys] have "render example_host ?s = Normal (Rows [js ''k  (abc...)''])"
    by (simp add: info_textContent_def js_def)
  moreover have "js ''k  (abc...)'' = js ''k  ('' @ js ''abc'' @ js ''...)''"
    by (simp add: js_def)
  then have "sublist (js ''abc'') (js ''k  (abc...)'')"
    unfolding sublist_def by blast
  ultimately show ?thesis by simp
qed

text \<open>
  C3, amended. For every stored credential set, the text rendered for an entry is its
  name, two spaces and, in parentheses, the first 8 code units of its secret followed by
  \<open>...\<close>: nothing of the secret after its first 8 code units is rendered (and a secret
  of at most 8 code units is rendered whole).
\<close>

theorem render_shows_first_8:
  assumes "loadKeys h s = CredentialSet es"
  shows "render h s =
     Normal (if es = [] then NoKeysSaved
             else Rows (map (\<lambda>e. fst e @ js ''  ('' @ take 8 (snd e) @ js ''...)'') es))"
proof -
  have "info_textContent n (take 8 k @ js ''...'') = n @ js ''  ('' @ take 8 k @ js ''...)''"
    for n k
    by (simp add: info_textContent_def js_def)
  with render_CredentialSet [OF assms] show ?thesis by simp
qed

theorem render_shows_first_8_witness:
  "loadKeys example_host (stored [(KEYS_STORAGE, js ''{\"prod\":\"fal-aaa111-bbb222\"}'')])
     = CredentialSet [(js ''prod'', js ''fal-aaa111-bbb222'')]
   \<and> render example_host (stored [(KEYS_STORAGE, js ''{\"prod\":\"fal-aaa111-bbb222\"}'')])
     = Normal (Rows [js ''prod  (fal-aaa1...)''])"
proof -
  let ?s = "stored [(KEYS_STORAGE, js ''{\"prod\":\"fal-aaa111-bbb222\"}'')]"
  have keys: "loadKeys example_host ?s = CredentialSet [(js ''prod'', js ''fal-aaa111-bbb222'')]"
    by (simp add: run_simps)
  from render_shows_first_8 [OF keys] keys show ?thesis
    by (simp add: js_def)
qed

text \<open>
  C2. For every stored credential set and every name \<open>n\<close>, the remove action of the row of
  \<open>n\<close> runs to its end and leaves the persisted set without \<open>n\<close>, every other entry as
  it was. If the persisted active name was \<open>n\<close> it is now the empty string; otherwise the
  item holding it has not been touched.
\<close>

theorem del_onclick_removes_entry:
  assumes "loadKeys h s = CredentialSet es"
  shows "case del_onclick h n (s, d) of
           (c, s', d') \<Rightarrow>
             c = Normal ()
             \<and> loadKeys h s' = CredentialSet (filter (\<lambda>e. fst e \<noteq> n) es)
             \<and> getActiveKeyName s' = (if getActiveKeyName s = n then [] else getActiveKeyName s)
             \<and> getItem s' ACTIVE_STORAGE =
                 (if getActiveKeyName s = n then Some [] else getItem s ACTIVE_STORAGE)"
proof -
  let ?es = "filter (\<lambda>e. fst e \<noteq> n) es"
  let ?s1 = "saveKeys h (CredentialSet ?es) s"
  let ?s2 = "if getActiveKeyName ?s1 = n then setActiveKeyName [] ?s1 else ?s1"
  have del: "js_delete h (loadKeys h s) n = Normal (CredentialSet ?es)"
    using assms by (simp add: js_delete_CredentialSet)
  have keys: "loadKeys h ?s2 = CredentialSet ?es"
    using loadKeys_after_delete [OF assms, of n] by simp
  from render_CredentialSet [OF keys] obtain l where l: "render h ?s2 = Normal l"
    by simp
  have res: "del_onclick h n (s, d) =
      (Normal (), ?s2, \<lparr>listing = l, bound_node = refreshNodeWidgets h ?s2 (bound_node d)\<rparr>)"
    using del l by (simp add: del_onclick_def Let_def)
  have "getItem ?s2 ACTIVE_STORAGE =
      (if getActiveKeyName s = n then Some [] else getItem s ACTIVE_STORAGE)"
    by (simp add: setActiveKeyName_def)
  with keys show ?thesis
    unfolding res by simp
qed

theorem del_onclick_removes_entry_witness:
  "loadKeys example_host
     (stored [(KEYS_STORAGE, js ''{\"prod\":\"fal-aaa111\"}''), (ACTIVE_STORAGE, js ''prod'')])
     = CredentialSet [(js ''prod'', js ''fal-aaa111'')]
   \<and> (case del_onclick example_host (js ''prod'')
              (stored [(KEYS_STORAGE, js ''{\"prod\":\"fal-aaa111\"}''),
                       (ACTIVE_STORAGE, js ''prod'')],
               \<lparr>listing = NoKeysSaved, bound_node = None\<rparr>) of
          (c, s', d') \<Rightarrow>
            c = Normal () \<and> loadKeys example_host s' = CredentialSet []
            \<and> getActiveKeyName s' = [] \<and> getItem s' ACTIVE_STORAGE = Some [])"
proof -
  let ?s = "stored [(KEYS_STORAGE, js ''{\"prod\":\"fal-aaa111\"}''), (ACTIVE_STORAGE, js ''prod'')]"
  have keys: "loadKeys example_host ?s = CredentialSet [(js ''prod'', js ''fal-aaa111'')]"
    by (simp add: run_simps)
  have active: "getActiveKeyName ?s = js ''prod''"
    by (simp add: run_simps)
  have "filter (\<lambda>e. fst e \<noteq> js ''prod'') [(js ''prod'', js ''fal-aaa111'')] = []"
    by simp
  with del_onclick_removes_entry [OF keys, of "js ''prod''" "\<lparr>listing = NoKeysSaved, bound_node = None\<rparr>"]
    keys active
  show ?thesis by simp
qed

text \<open>
  C9. For every stored credential set and every submission of the add form whose trimmed
  name and trimmed secret are not empty and whose trimmed name is already an entry, the
  add action runs to its end and leaves the persisted set with that entry's secret
  replaced by the trimmed secret, every other entry and the order as they were: the number
  of entries is unchanged.
\<close>

theorem addBtn_onclick_overwrites:
  assumes "loadKeys h s = CredentialSet es"
    and "trim nameInput \<noteq> []" and "trim keyInput \<noteq> []"
    and "trim nameInput \<in> fst ` set es"
  shows "case addBtn_onclick h nameInput keyInput (s, d) of
           (c, s', d') \<Rightarrow>
             c = Normal ()
             \<and> loadKeys h s' =
                 CredentialSet (map (\<lambda>e. if fst e = trim nameInput
                                          then (trim nameInput, trim keyInput) else e) es)
             \<and> length (Object_keys (loadKeys h s')) = length (Object_keys (loadKeys h s))"
proof -
  let ?n = "trim nameInput" and ?k = "trim keyInput"
  let ?es = "map (\<lambda>e. if fst e = ?n then (?n, ?k) else e) es"
  let ?s1 = "saveKeys h (CredentialSet ?es) s"
  have wf: "own_properties (map (\<lambda>e. (fst e, JStr (snd e))) es)"
    using assms(1) by (rule loadKeys_entries_own_properties)
  have set: "js_set h (loadKeys h s) ?n ?k = Normal (CredentialSet ?es)"
    using js_set_existing [OF wf assms(4)] assms(1) by simp
  have keys: "loadKeys h ?s1 = CredentialSet ?es"
    using own_properties_overwrite [OF wf] by (rule loadKeys_saveKeys_CredentialSet)
  from render_CredentialSet [OF keys] obtain l where l: "render h ?s1 = Normal l"
    by simp
  have res: "addBtn_onclick h nameInput keyInput (s, d) =
      (Normal (), ?s1, \<lparr>listing = l, bound_node = refreshNodeWidgets h ?s1 (bound_node d)\<rparr>)"
    using set l assms(2,3) by (simp add: addBtn_onclick_def Let_def)
  show ?thesis
    unfolding res using keys assms(1) by simp
qed

theorem addBtn_onclick_overwrites_witness:
  "loadKeys example_host
     (stored [(KEYS_STORAGE, js ''{\"dev\":\"fal-ccc\",\"prod\":\"fal-aaa111\"}'')])
     = CredentialSet [(js ''dev'', js ''fal-ccc''), (js ''prod'', js ''fal-aaa111'')]
   \<and> trim (js '' prod '') = js ''prod'' \<and> trim (js ''fal-bbb222 '') = js ''fal-bbb222''
   \<and> (case addBtn_onclick example_host (js '' prod '') (js ''fal-bbb222 '')
              (stored [(KEYS_STORAGE, js ''{\"dev\":\"fal-ccc\",\"prod\":\"fal-aaa111\"}'')],
               \<lparr>listing = NoKeysSaved, bound_node = None\<rparr>) of
          (c, s', d') \<Rightarrow>
            c = Normal ()
            \<and> loadKeys example_host s'
                = CredentialSet [(js ''dev'', js ''fal-ccc''), (js ''prod'', js ''fal-bbb222'')]
            \<and> length (Object_keys (loadKeys example_host s')) = 2)"
proof -
  let ?s = "stored [(KEYS_STORAGE, js ''{\"dev\":\"fal-ccc\",\"prod\":\"fal-aaa111\"}'')]"
  have keys: "loadKeys example_host ?s
      = CredentialSet [(js ''dev'', js ''fal-ccc''), (js ''prod'', js ''fal-aaa111'')]"
    by (simp add: run_simps key_before_def is_array_index_def)
  have n: "trim (js '' prod '') = js ''prod''" and k: "trim (js ''fal-bbb222 '') = js ''fal-bbb222''"
    by (simp_all add: trim_def js_def is_white_space_def)
  have ne: "js ''prod'' \<noteq> []" "js ''fal-bbb222'' \<noteq> []" "js ''dev'' \<noteq> js ''prod''"
    by (simp_all add: js_def)
  have mem: "trim (js '' prod '') \<in> fst ` set [(js ''dev'', js ''fal-ccc''), (js ''prod'', js ''fal-aaa111'')]"
    unfolding n by simp
  from addBtn_onclick_overwrites [OF keys _ _ mem, of "js ''fal-bbb222 ''" "\<lparr>listing = NoKeysSaved, bound_node = None\<rparr>"]
    keys n k ne
  show ?thesis by (simp split: prod.splits)
qed

section \<open>Properties of the selector\<close>

text \<open>
  C6. Take a stored credential set with entries \<open>es\<close>, the stored active name (the
  item \<open>fal_active_key_name\<close>, empty when absent) and a dialog bound to a node that has
  a \<open>key_selector\<close> widget. The remove action of \<open>n\<close> runs to its end and leaves the
  selector as the contract wants it for the names of \<open>es\<close> without \<open>n\<close> and the
  active name, cleared if it was \<open>n\<close>. An add with a non-empty trimmed name and secret
  runs to its end and leaves the selector as the contract wants it for the names after
  the assignment and the unchanged active name. Hence after the remove action of the
  only entry the options are \<open>[(no keys)]\<close> and the value is \<open>(no keys)\<close>.
\<close>

theorem selector_after_mutation:
  assumes "loadKeys h s = CredentialSet es"
    and "bound_node d = Some nd" and "find_combo nd = Some w"
  shows "let active = (case getItem s ACTIVE_STORAGE of None \<Rightarrow> [] | Some a \<Rightarrow> a) in
         (case del_onclick h n (s, d) of
            (c, s', d') \<Rightarrow>
              c = Normal ()
              \<and> map_option find_combo (bound_node d') =
                  Some (Some (notified_selector (map fst (filter (\<lambda>e. fst e \<noteq> n) es))
                                (if active = n then [] else active) w)))
         \<and> (trim nameInput \<noteq> [] \<and> trim keyInput \<noteq> [] \<longrightarrow>
              (case addBtn_onclick h nameInput keyInput (s, d) of
                 (c, s', d') \<Rightarrow>
                   c = Normal ()
                   \<and> map_option find_combo (bound_node d') =
                       Some (Some (notified_selector
                         (if trim nameInput = js ''__proto__'' \<and> trim nameInput \<notin> fst ` set es
                          then map fst es
                          else map fst (obj_define (trim nameInput) (JStr (trim keyInput))
                                          (map (\<lambda>e. (fst e, JStr (snd e))) es)))
                         active w))))
         \<and> (map fst es = [n] \<longrightarrow>
              (case del_onclick h n (s, d) of
                 (c, s', d') \<Rightarrow>
                   map_option find_combo (bound_node d') =
                     Some (Some (w\<lparr>options_values := [js ''(no keys)''],
                                   wvalue := js ''(no keys)''\<rparr>))))"
proof -
  define active where "active = (case getItem s ACTIVE_STORAGE of None \<Rightarrow> [] | Some a \<Rightarrow> a)"
  have active: "getActiveKeyName s = active"
    unfolding active_def by (rule getActiveKeyName_item)
  from del_onclick_result [OF assms(1), of n d] obtain s1 l1 where
    del: "del_onclick h n (s, d) =
      (Normal (), s1, \<lparr>listing = l1, bound_node = refreshNodeWidgets h s1 (bound_node d)\<rparr>)"
    and keys1: "loadKeys h s1 = CredentialSet (filter (\<lambda>e. fst e \<noteq> n) es)"
    and cleared: "getActiveKeyName s1 = (if getActiveKeyName s = n then [] else getActiveKeyName s)"
    by blast
  from cleared have active1: "getActiveKeyName s1 = (if active = n then [] else active)"
    unfolding active .
  have combo1: "map_option find_combo (refreshNodeWidgets h s1 (bound_node d)) =
      Some (Some (notified_selector (map fst (filter (\<lambda>e. fst e \<noteq> n) es))
                    (if active = n then [] else active) w))"
    using find_combo_refreshed [OF assms(3), of h s1]
    by (simp add: assms(2) keys1 active1)
  have first: "case del_onclick h n (s, d) of
      (c, s', d') \<Rightarrow>
        c = Normal ()
        \<and> map_option find_combo (bound_node d') =
            Some (Some (notified_selector (map fst (filter (\<lambda>e. fst e \<noteq> n) es))
                          (if active = n then [] else active) w))"
    unfolding del using combo1 by simp
  have second: "case addBtn_onclick h nameInput keyInput (s, d) of
      (c, s', d') \<Rightarrow>
        c = Normal ()
        \<and> map_option find_combo (bound_node d') =
            Some (Some (notified_selector
              (if trim nameInput = js ''__proto__'' \<and> trim nameInput \<notin> fst ` set es
               then map fst es
               else map fst (obj_define (trim nameInput) (JStr (trim keyInput))
                               (map (\<lambda>e. (fst e, JStr (snd e))) es)))
              active w))"
    if ne: "trim nameInput \<noteq> [] \<and> trim keyInput \<noteq> []"
  proof -
    from addBtn_onclick_entries [OF assms(1) conjunct1 [OF ne] conjunct2 [OF ne], of d]
    obtain s2 l2 es2 where
      add: "addBtn_onclick h nameInput keyInput (s, d) =
        (Normal (), s2, \<lparr>listing = l2, bound_node = refreshNodeWidgets h s2 (bound_node d)\<rparr>)"
      and keys2: "loadKeys h s2 = CredentialSet es2"
      and names2: "map fst es2 =
              (if trim nameInput = js ''__proto__'' \<and> trim nameInput \<notin> fst ` set es
               then map fst es
               else map fst (obj_define (trim nameInput) (JStr (trim keyInput))
                               (map (\<lambda>e. (fst e, JStr (snd e))) es)))"
      and active2: "getActiveKeyName s2 = getActiveKeyName s"
      by blast
    have "map_option find_combo (refreshNodeWidgets h s2 (bound_node d)) =
        Some (Some (notified_selector (map fst es2) active w))"
      using find_combo_refreshed [OF assms(3), of h s2]
      by (simp add: assms(2) keys2 active2 active)
    then show ?thesis
      unfolding add names2 by simp
  qed
  have third: "case del_onclick h n (s, d) of
      (c, s', d') \<Rightarrow>
        map_option find_combo (bound_node d') =
          Some (Some (w\<lparr>options_values := [js ''(no keys)''], wvalue := js ''(no keys)''\<rparr>))"
    if "map fst es = [n]"
  proof -
    from that have "filter (\<lambda>e. fst e \<noteq> n) es = []"
      by (cases es) auto
    with combo1 show ?thesis
      unfolding del by (simp add: notified_selector_def)
  qed
  show ?thesis
    unfolding Let_def active_def [symmetric]
  proof (intro conjI impI)
    show "case del_onclick h n (s, d) of
      (c, s', d') \<Rightarrow>
        c = Normal ()
        \<and> map_option find_combo (bound_node d') =
            Some (Some (notified_selector (map fst (filter (\<lambda>e. fst e \<noteq> n) es))
                          (if active = n then [] else active) w))"
      by (rule first)
  next
    assume "trim nameInput \<noteq> [] \<and> trim keyInput \<noteq> []"
    then show "case addBtn_onclick h nameInput keyInput (s, d) of
      (c, s', d') \<Rightarrow>
        c = Normal ()
        \<and> map_option find_combo (bound_node d') =
            Some (Some (notified_selector
              (if trim nameInput = js ''__proto__'' \<and> trim nameInput \<notin> fst ` set es
               then map fst es
               else map fst (obj_define (trim nameInput) (JStr (trim keyInput))
                               (map (\<lambda>e. (fst e, JStr (snd e))) es)))
              active w))"
      by (rule second)
  next
    assume "map fst es = [n]"
    then show "case del_onclick h n (s, d) of
      (c, s', d') \<Rightarrow>
        map_option find_combo (bound_node d') =
          Some (Some (w\<lparr>options_values := [js ''(no keys)''], wvalue := js ''(no keys)''\<rparr>))"
      by (rule third)
  qed
qed

theorem selector_after_mutation_witness:
  "loadKeys example_host
     (stored [(KEYS_STORAGE, js ''{\"dev\":\"fal-ccc\",\"prod\":\"fal-aaa111\",\"7\":\"x\"}''),
              (ACTIVE_STORAGE, js ''prod'')])
     = CredentialSet [(js ''7'', js ''x''), (js ''dev'', js ''fal-ccc''), (js ''prod'', js ''fal-aaa111'')]
   \<and> find_combo example_node = Some example_selector
   \<and> (case del_onclick example_host (js ''dev'')
              (stored [(KEYS_STORAGE, js ''{\"dev\":\"fal-ccc\",\"prod\":\"fal-aaa111\",\"7\":\"x\"}''),
                       (ACTIVE_STORAGE, js ''prod'')],
               \<lparr>listing = NoKeysSaved, bound_node = Some example_node\<rparr>) of
          (c, s', d') \<Rightarrow>
            c = Normal ()
            \<and> map_option find_combo (bound_node d') =
                Some (Some (example_selector\<lparr>options_values := [js ''7'', js ''prod''],
                                              wvalue := js ''prod''\<rparr>)))
   \<and> (case del_onclick example_host (js ''prod'')
              (stored [(KEYS_STORAGE, js ''{\"dev\":\"fal-ccc\",\"prod\":\"fal-aaa111\",\"7\":\"x\"}''),
                       (ACTIVE_STORAGE, js ''prod'')],
               \<lparr>listing = NoKeysSaved, bound_node = Some example_node\<rparr>) of
          (c, s', d') \<Rightarrow>
            c = Normal ()
            \<and> map_option find_combo (bound_node d') =
                Some (Some (example_selector\<lparr>options_values := [js ''7'', js ''dev''],
                                              wvalue := js ''7''\<rparr>)))
   \<and> (case addBtn_onclick example_host (js '' staging '') (js ''fal-ddd'')
              (stored [(KEYS_STORAGE, js ''{\"dev\":\"fal-ccc\",\"prod\":\"fal-aaa111\",\"7\":\"x\"}''),
                       (ACTIVE_STORAGE, js ''prod'')],
               \<lparr>listing = NoKeysSaved, bound_node = Some example_node\<rparr>) of
          (c, s', d') \<Rightarrow>
            c = Normal ()
            \<and> map_option find_combo (bound_node d') =
                Some (Some (example_selector
                  \<lparr>options_values := [js ''7'', js ''dev'', js ''prod'', js ''staging''],
                   wvalue := js ''prod''\<rparr>)))
   \<and> (case del_onclick example_host (js ''prod'')
              (stored [(KEYS_STORAGE, js ''{\"prod\":\"fal-aaa111\"}''), (ACTIVE_STORAGE, js ''prod'')],
               \<lparr>listing = NoKeysSaved, bound_node = Some example_node\<rparr>) of
          (c, s', d') \<Rightarrow>
            map_option find_combo (bound_node d') =
              Some (Some (example_selector\<lparr>options_values := [js ''(no keys)''],
                                            wvalue := js ''(no keys)''\<rparr>)))"
proof -
  let ?s = "stored [(KEYS_STORAGE, js ''{\"dev\":\"fal-ccc\",\"prod\":\"fal-aaa111\",\"7\":\"x\"}''),
                    (ACTIVE_STORAGE, js ''prod'')]"
  let ?t = "stored [(KEYS_STORAGE, js ''{\"prod\":\"fal-aaa111\"}''), (ACTIVE_STORAGE, js ''prod'')]"
  let ?d = "\<lparr>listing = NoKeysSaved, bound_node = Some example_node\<rparr>"
  let ?es = "[(js ''7'', js ''x''), (js ''dev'', js ''fal-ccc''), (js ''prod'', js ''fal-aaa111'')]"
  have keys: "loadKeys example_host ?s = CredentialSet ?es"
    by (simp add: run_simps key_before_def is_array_index_def dec_value_def)
  have keys1: "loadKeys example_host ?t = CredentialSet [(js ''prod'', js ''fal-aaa111'')]"
    by (simp add: run_simps)
  have combo: "find_combo example_node = Some example_selector"
    by (simp add: find_combo_def example_node_def example_selector_def js_def)
  have node: "bound_node ?d = Some example_node" by simp
  have active: "(case getItem ?s ACTIVE_STORAGE of None \<Rightarrow> [] | Some a \<Rightarrow> a) = js ''prod''"
    by (simp add: run_simps)
  have ne: "js ''prod'' \<noteq> js ''dev''" "js ''7'' \<noteq> js ''dev''" "js ''7'' \<noteq> js ''prod''"
    "js ''dev'' \<noteq> js ''prod''" "js ''prod'' \<noteq> js ''7''" "js ''dev'' \<noteq> js ''7''"
    by (simp_all add: js_def)
  have nonempty: "[] \<noteq> js ''7''" "[] \<noteq> js ''dev''"
    by (simp_all add: js_def)
  have name: "trim (js '' staging '') = js ''staging''" and secret: "trim (js ''fal-ddd'') = js ''fal-ddd''"
    by (simp_all add: trim_def js_def is_white_space_def)
  have filled: "js ''staging'' \<noteq> []" "js ''fal-ddd'' \<noteq> []" "js ''staging'' \<noteq> js ''__proto__''"
    by (simp_all add: js_def)
  have added: "map fst (obj_define (js ''staging'') (JStr (js ''fal-ddd''))
        (map (\<lambda>e. (fst e, JStr (snd e))) ?es)) = [js ''7'', js ''dev'', js ''prod'', js ''staging'']"
    by (simp add: js_def key_before_def is_array_index_def is_digit_def)
  have without_dev: "filter (\<lambda>e. fst e \<noteq> js ''dev'') ?es
      = [(js ''7'', js ''x''), (js ''prod'', js ''fal-aaa111'')]"
    and without_prod: "filter (\<lambda>e. fst e \<noteq> js ''prod'') ?es
      = [(js ''7'', js ''x''), (js ''dev'', js ''fal-ccc'')]"
    by (simp_all add: ne)
  note first = selector_after_mutation [OF keys node combo, of "js ''dev''" "js '' staging ''" "js ''fal-ddd''"]
  note second = selector_after_mutation [OF keys node combo, of "js ''prod''" "[]" "[]"]
  note third = selector_after_mutation [OF keys1 node combo, of "js ''prod''" "[]" "[]"]
  have a: "case del_onclick example_host (js ''dev'') (?s, ?d) of
          (c, s', d') \<Rightarrow>
            c = Normal ()
            \<and> map_option find_combo (bound_node d') =
                Some (Some (example_selector\<lparr>options_values := [js ''7'', js ''prod''],
                                              wvalue := js ''prod''\<rparr>))"
    using first unfolding Let_def active without_dev
    by (simp add: ne notified_selector_def)
  have b: "case addBtn_onclick example_host (js '' staging '') (js ''fal-ddd'') (?s, ?d) of
          (c, s', d') \<Rightarrow>
            c = Normal ()
            \<and> map_option find_combo (bound_node d') =
                Some (Some (example_selector
                  \<lparr>options_values := [js ''7'', js ''dev'', js ''prod'', js ''staging''],
                   wvalue := js ''prod''\<rparr>))"
    using first unfolding Let_def active name secret added
    by (simp add: ne filled notified_selector_def)
  have c: "case del_onclick example_host (js ''prod'') (?s, ?d) of
          (c, s', d') \<Rightarrow>
            c = Normal ()
            \<and> map_option find_combo (bound_node d') =
                Some (Some (example_selector\<lparr>options_values := [js ''7'', js ''dev''],
                                              wvalue := js ''7''\<rparr>))"
    using second unfolding Let_def active without_prod
    by (simp add: ne nonempty notified_selector_def)
  have d: "case del_onclick example_host (js ''prod'') (?t, ?d) of
          (c, s', d') \<Rightarrow>
            map_option find_combo (bound_node d') =
              Some (Some (example_selector\<lparr>options_values := [js ''(no keys)''],
                                            wvalue := js ''(no keys)''\<rparr>))"
    using third by (simp add: Let_def)
  from keys combo a c b d show ?thesis by (intro conjI)
qed

text \<open>
  C10. For every string handed to the selector's callback: if it is empty or the
  placeholder \<open>(no keys)\<close>, nothing is written; otherwise it becomes the persisted active
  name. So the placeholder never becomes the active name through the selector.
\<close>

theorem key_selector_callback_guard:
  "(v = [] \<or> v = js ''(no keys)'' \<longrightarrow> key_selector_callback v s = s)
   \<and> (v \<noteq> [] \<and> v \<noteq> js ''(no keys)'' \<longrightarrow>
        getItem (key_selector_callback v s) ACTIVE_STORAGE = Some v
        \<and> getActiveKeyName (key_selector_callback v s) = v)
   \<and> (getActiveKeyName s \<noteq> js ''(no keys)'' \<longrightarrow>
        getActiveKeyName (key_selector_callback v s) \<noteq> js ''(no keys)'')"
  by (auto simp: key_selector_callback_def setActiveKeyName_def getActiveKeyName_def)

theorem key_selector_callback_guard_witness:
  "key_selector_callback (js ''(no keys)'') (stored [(ACTIVE_STORAGE, js ''prod'')])
     = stored [(ACTIVE_STORAGE, js ''prod'')]
   \<and> getActiveKeyName (key_selector_callback (js ''dev'') (stored [(ACTIVE_STORAGE, js ''prod'')]))
     = js ''dev''"
proof -
  have "js ''dev'' \<noteq> [] \<and> js ''dev'' \<noteq> js ''(no keys)''" by (simp add: js_def)
  with key_selector_callback_guard [of "js ''(no keys)''" "stored [(ACTIVE_STORAGE, js ''prod'')]"]
    key_selector_callback_guard [of "js ''dev''" "stored [(ACTIVE_STORAGE, js ''prod'')]"]
  show ?thesis by blast
qed

end
